theory Spec2Isabelle
  imports Main "HOL-Library.Word"
begin

unbundle bit_operations_syntax

section \<open>Packed object access of got: a shallow embedding of lib/pack.c\<close>

text \<open>
  The theory follows \<^verbatim>\<open>src/lib/pack.c\<close> function by function and keeps its names.
  C integers of a fixed width are words, \<^verbatim>\<open>off_t\<close> values are integers, byte buffers
  are lists of bytes, and a \<^verbatim>\<open>NULL\<close> pointer is \<open>None\<close>.  A function that returns
  \<^verbatim>\<open>const struct got_error *\<close> returns a sum here: \<open>Inl\<close> carries the error code,
  \<open>Inr\<close> the values the C function stores through its out-parameters.
\<close>

subsection \<open>Machine types and error codes\<close>

type_synonym u8 = "8 word"
type_synonym u32 = "32 word"
type_synonym u64 = "64 word"
type_synonym bytes = "u8 list"

text \<open>The error codes of \<^verbatim>\<open>got_error.h\<close> that pack.c raises.  \<open>GOT_ERR_ERRNO\<close> is what
  \<^verbatim>\<open>got_error_from_errno()\<close> returns.  \<open>GOT_ERR_ZLIB\<close> stands for the errors of the zlib helpers, which
  live outside pack.c.  \<open>UNDEFINED_BEHAVIOUR\<close> is
  no error code: it marks an execution that has left what C defines (a read beyond the end
  of an array, the use of a \<^verbatim>\<open>NULL\<close> stream, the read of a variable that was never set),
  where the model stops.\<close>

datatype got_error =
    GOT_ERR_ERRNO
  | GOT_ERR_NO_MEM
  | GOT_ERR_NO_SPACE
  | GOT_ERR_BAD_PATH
  | GOT_ERR_BAD_PACKIDX
  | GOT_ERR_PACKIDX_CSUM
  | GOT_ERR_BAD_PACKFILE
  | GOT_ERR_NO_OBJ
  | GOT_ERR_NOT_IMPL
  | GOT_ERR_OBJ_NOT_PACKED
  | GOT_ERR_BAD_DELTA_CHAIN
  | GOT_ERR_IO
  | GOT_ERR_FILE_OPEN
  | GOT_ERR_ZLIB
  | UNDEFINED_BEHAVIOUR

subsection \<open>Data structures\<close>

text \<open>A stdio stream: the identity it got when it was opened, the bytes of the file
  and the read/write position.\<close>

record FILE =
  fd :: nat
  fbytes :: bytes
  fpos :: nat

text \<open>\<^verbatim>\<open>struct got_packidx_v2_hdr\<close>.  The C struct keeps every integer big-endian as read
  and converts at each use (\<^verbatim>\<open>betoh32\<close>); the record keeps the converted values.  A
  \<^verbatim>\<open>NULL\<close> \<^verbatim>\<open>large_offsets\<close> pointer is \<open>None\<close>.\<close>

record got_packidx_v2_hdr =
  magic :: u32
  version :: u32
  fanout_table :: "u32 list"
  sorted_ids :: "bytes list"
  crc32 :: "u32 list"
  offsets :: "u32 list"
  large_offsets :: "u64 list option"
  packfile_sha1 :: bytes
  packidx_sha1 :: bytes

text \<open>\<^verbatim>\<open>struct got_delta\<close>, with the fields \<^verbatim>\<open>got_delta_open\<close> is given, and
  \<^verbatim>\<open>struct got_delta_chain\<close>: a counter and a queue, the head of the queue first.\<close>

record got_delta =
  d_path_packfile :: string
  d_offset :: int
  d_tslen :: nat
  d_type :: nat
  d_size :: nat
  d_data_offset :: int

record got_delta_chain =
  nentries :: nat
  entries :: "got_delta list"

text \<open>\<^verbatim>\<open>struct got_object\<close>.\<close>

record got_object =
  o_id :: bytes
  o_type :: nat
  o_flags :: u32
  o_hdrlen :: nat
  o_size :: nat
  o_path_packfile :: string
  o_pack_offset :: int
  o_deltas :: got_delta_chain

text \<open>One slot of \<^verbatim>\<open>repo->pack_cache\<close>; a free slot has a \<^verbatim>\<open>NULL\<close> packidx.\<close>

record pack_cache_entry =
  pc_packidx :: "got_packidx_v2_hdr option"
  pc_packfile :: "FILE option"
  pc_path_packfile :: "string option"

text \<open>\<^verbatim>\<open>struct got_delta_cache_entry\<close> (free when \<^verbatim>\<open>data_offset\<close> is 0) and
  \<^verbatim>\<open>struct got_delta_cache\<close> (free when \<^verbatim>\<open>path_packfile\<close> is \<^verbatim>\<open>NULL\<close>).\<close>

record got_delta_cache_entry =
  dce_data_offset :: int
  dce_delta_buf :: "bytes option"
  dce_delta_len :: nat

record got_delta_cache =
  dc_path_packfile :: "string option"
  dc_deltas :: "got_delta_cache_entry list"

text \<open>
  The state the functions thread.  \<open>packdir\<close> is the directory \<^verbatim>\<open>objects/pack\<close> of the
  repository: its entries in \<^verbatim>\<open>readdir\<close> order, each a file name with the bytes of the file.
  \<open>pack_cache\<close> and \<open>delta_cache\<close> are the two arrays of \<^verbatim>\<open>struct got_repository\<close>.
  \<open>next_fd\<close> and \<open>open_fds\<close> record which streams are open.

  Three things pack.c takes from outside are parameters of the state: \<open>sha1\<close> is the digest
  of libc's \<^verbatim>\<open>sha1.h\<close>, \<open>inflate\<close> is what zlib makes of the compressed stream that starts a
  byte sequence, and \<open>cached_max\<close> is the constant \<^verbatim>\<open>GOT_DELTA_RESULT_SIZE_CACHED_MAX\<close>.

  \<open>faults\<close> decides the calls whose failure does not depend on the bytes of a file: memory
  allocation, \<^verbatim>\<open>fopen\<close> of a file that exists, \<^verbatim>\<open>fseeko\<close>, \<^verbatim>\<open>ftello\<close>, \<^verbatim>\<open>fclose\<close>, \<^verbatim>\<open>fwrite\<close>,
  \<^verbatim>\<open>opendir\<close>, \<^verbatim>\<open>closedir\<close> and \<^verbatim>\<open>got_opentemp\<close>.  Each such call takes the next entry of the
  list and fails when it is \<open>True\<close>; when the list is used up every call succeeds.
\<close>

record world =
  packdir :: "(string \<times> bytes) list"
  sha1 :: "bytes \<Rightarrow> bytes"
  inflate :: "bytes \<Rightarrow> got_error + bytes"
  cached_max :: nat
  faults :: "bool list"
  next_fd :: nat
  open_fds :: "nat list"
  pack_cache :: "pack_cache_entry list"
  delta_cache :: "got_delta_cache list"

subsection \<open>Constants of the headers\<close>

text \<open>Modelled from the spec: the constants of \<^verbatim>\<open>got_pack_lib.h\<close>, \<^verbatim>\<open>got_object.h\<close>,
  \<^verbatim>\<open>got_object_lib.h\<close> and \<^verbatim>\<open>got_repository_lib.h\<close>, which are not among the sources.  The
  spec gives the index magic and version, the bit layout of the object header (three type
  bits above four size bits, seven size bits in every further byte, the top bit as the
  continuation flag), the type codes, the meaning of the top bit of an index offset, and
  the sizes of the two caches.\<close>

definition GOT_PACKIDX_V2_MAGIC :: u32 where "GOT_PACKIDX_V2_MAGIC = 0xff744f63"
definition GOT_PACKIDX_VERSION :: u32 where "GOT_PACKIDX_VERSION = 2"
definition GOT_PACKFILE_SIGNATURE :: u32 where "GOT_PACKFILE_SIGNATURE = 0x5041434b"
definition GOT_PACKFILE_VERSION :: u32 where "GOT_PACKFILE_VERSION = 2"
definition GOT_PACKIDX_OFFSET_VAL_MASK :: u32 where "GOT_PACKIDX_OFFSET_VAL_MASK = 0x7fffffff"
definition GOT_PACKIDX_OFFSET_VAL_IS_LARGE_IDX :: u32 where
  "GOT_PACKIDX_OFFSET_VAL_IS_LARGE_IDX = 0x80000000"
definition GOT_PACK_OBJ_SIZE_MORE :: u8 where "GOT_PACK_OBJ_SIZE_MORE = 0x80"
definition GOT_PACK_OBJ_SIZE0_TYPE_MASK :: u8 where "GOT_PACK_OBJ_SIZE0_TYPE_MASK = 0x70"
definition GOT_PACK_OBJ_SIZE0_TYPE_MASK_SHIFT :: nat where "GOT_PACK_OBJ_SIZE0_TYPE_MASK_SHIFT = 4"
definition GOT_PACK_OBJ_SIZE0_VAL_MASK :: u8 where "GOT_PACK_OBJ_SIZE0_VAL_MASK = 0x0f"
definition GOT_PACK_OBJ_SIZE_VAL_MASK :: u8 where "GOT_PACK_OBJ_SIZE_VAL_MASK = 0x7f"
definition GOT_PACK_OBJ_DELTA_OFF_MORE :: u8 where "GOT_PACK_OBJ_DELTA_OFF_MORE = 0x80"
definition GOT_PACK_OBJ_DELTA_OFF_VAL_MASK :: u8 where "GOT_PACK_OBJ_DELTA_OFF_VAL_MASK = 0x7f"

definition GOT_OBJ_TYPE_COMMIT :: nat where "GOT_OBJ_TYPE_COMMIT = 1"
definition GOT_OBJ_TYPE_TREE :: nat where "GOT_OBJ_TYPE_TREE = 2"
definition GOT_OBJ_TYPE_BLOB :: nat where "GOT_OBJ_TYPE_BLOB = 3"
definition GOT_OBJ_TYPE_TAG :: nat where "GOT_OBJ_TYPE_TAG = 4"
definition GOT_OBJ_TYPE_OFFSET_DELTA :: nat where "GOT_OBJ_TYPE_OFFSET_DELTA = 6"
definition GOT_OBJ_TYPE_REF_DELTA :: nat where "GOT_OBJ_TYPE_REF_DELTA = 7"

definition GOT_OBJ_FLAG_PACKED :: u32 where "GOT_OBJ_FLAG_PACKED = 0x01"
definition GOT_OBJ_FLAG_DELTIFIED :: u32 where "GOT_OBJ_FLAG_DELTIFIED = 0x02"

definition GOT_PACK_CACHE_SIZE :: nat where "GOT_PACK_CACHE_SIZE = 4"
definition GOT_DELTA_CACHE_SIZE :: nat where "GOT_DELTA_CACHE_SIZE = 4"
definition GOT_DELTA_CACHE_NDELTAS :: nat where "GOT_DELTA_CACHE_NDELTAS = 256"

definition SHA1_DIGEST_LENGTH :: nat where "SHA1_DIGEST_LENGTH = 20"
definition PATH_MAX :: nat where "PATH_MAX = 1024"

subsection \<open>The host: allocation, streams, the pack directory\<close>

text \<open>One call whose outcome the state decides: the flag says whether it succeeded.\<close>

definition env_call :: "world \<Rightarrow> bool \<times> world" where
  "env_call w = (case faults w of [] \<Rightarrow> (True, w) | b # bs \<Rightarrow> (\<not> b, w\<lparr>faults := bs\<rparr>))"

text \<open>A path names a file of the pack directory when it is
  \<^verbatim>\<open>objects/pack/NAME\<close>; nothing else exists.\<close>

definition path_objects_pack :: string where
  "path_objects_pack = ''objects/pack''"

definition lookup_path :: "world \<Rightarrow> string \<Rightarrow> bytes option" where
  "lookup_path w path =
     (let n = length path_objects_pack + 1 in
      if take n path = path_objects_pack @ ''/'' then map_of (packdir w) (drop n path) else None)"

text \<open>\<^verbatim>\<open>fopen(path, "rb")\<close>: \<^verbatim>\<open>NULL\<close> when the file does not exist, and when the file
  exists and the host refuses to open it.\<close>

definition fopen :: "string \<Rightarrow> world \<Rightarrow> FILE option \<times> world" where
  "fopen path w =
     (case lookup_path w path of
        None \<Rightarrow> (None, w)
      | Some bs \<Rightarrow>
          (case env_call w of (ok, w1) \<Rightarrow>
             if \<not> ok then (None, w1)
             else (Some \<lparr>fd = next_fd w1, fbytes = bs, fpos = 0\<rparr>,
                   w1\<lparr>next_fd := Suc (next_fd w1), open_fds := next_fd w1 # open_fds w1\<rparr>)))"

text \<open>\<^verbatim>\<open>got_opentemp()\<close>: a new, empty, anonymous file.\<close>

definition got_opentemp :: "world \<Rightarrow> FILE option \<times> world" where
  "got_opentemp w =
     (case env_call w of (ok, w1) \<Rightarrow>
        if \<not> ok then (None, w1)
        else (Some \<lparr>fd = next_fd w1, fbytes = [], fpos = 0\<rparr>,
              w1\<lparr>next_fd := Suc (next_fd w1), open_fds := next_fd w1 # open_fds w1\<rparr>))"

text \<open>\<^verbatim>\<open>fclose(f)\<close>: the stream is closed whatever the call returns.\<close>

definition fclose :: "FILE \<Rightarrow> world \<Rightarrow> bool \<times> world" where
  "fclose f w =
     (case env_call w of (ok, w1) \<Rightarrow> (ok, w1\<lparr>open_fds := removeAll (fd f) (open_fds w1)\<rparr>))"

text \<open>\<^verbatim>\<open>fseeko(f, offset, SEEK_SET)\<close>: fails on a negative offset, and when the host says so.\<close>

definition fseeko :: "FILE \<Rightarrow> int \<Rightarrow> world \<Rightarrow> FILE option \<times> world" where
  "fseeko f off w =
     (case env_call w of (ok, w1) \<Rightarrow>
        if \<not> ok \<or> off < 0 then (None, w1) else (Some (f\<lparr>fpos := nat off\<rparr>), w1))"

text \<open>\<^verbatim>\<open>ftello(f)\<close>: \<open>None\<close> stands for the result -1.\<close>

definition ftello :: "FILE \<Rightarrow> world \<Rightarrow> int option \<times> world" where
  "ftello f w = (case env_call w of (ok, w1) \<Rightarrow> if \<not> ok then (None, w1) else (Some (int (fpos f)), w1))"

definition rewind :: "FILE \<Rightarrow> FILE" where
  "rewind f = f\<lparr>fpos := 0\<rparr>"

text \<open>\<^verbatim>\<open>fread(ptr, n, 1, f)\<close>: one item of \<open>n\<close> bytes, or a short read at the end of the
  file.\<close>

definition fread_bytes :: "nat \<Rightarrow> FILE \<Rightarrow> bytes option \<times> FILE" where
  "fread_bytes n f =
     (if fpos f + n \<le> length (fbytes f)
      then (Some (take n (drop (fpos f) (fbytes f))), f\<lparr>fpos := fpos f + n\<rparr>)
      else (None, f\<lparr>fpos := max (fpos f) (length (fbytes f))\<rparr>))"

text \<open>\<^verbatim>\<open>fread(ptr, sz, nmemb, f)\<close>: the complete items read, at most \<open>nmemb\<close>.\<close>

definition fread_items :: "nat \<Rightarrow> nat \<Rightarrow> FILE \<Rightarrow> bytes list \<times> FILE" where
  "fread_items sz nmemb f =
     (let avail = length (fbytes f) - fpos f;
          n = min nmemb (avail div sz)
      in (map (\<lambda>k. take sz (drop (fpos f + k * sz) (fbytes f))) [0..<n],
          f\<lparr>fpos := fpos f + min (sz * nmemb) avail\<rparr>))"

text \<open>\<^verbatim>\<open>fwrite(buf, 1, len, f)\<close>: the bytes replace what the file holds from the position
  on and extend it where they reach beyond its end.\<close>

definition fwrite :: "bytes \<Rightarrow> FILE \<Rightarrow> world \<Rightarrow> FILE option \<times> world" where
  "fwrite buf f w =
     (case env_call w of (ok, w1) \<Rightarrow>
        if \<not> ok then (None, w1)
        else (Some (f\<lparr>fbytes := take (fpos f) (fbytes f) @ buf
                              @ drop (fpos f + length buf) (fbytes f),
                       fpos := fpos f + length buf\<rparr>), w1))"

text \<open>\<^verbatim>\<open>got_ferror(f, code)\<close> gives \<^verbatim>\<open>code\<close> unless the error indicator of the stream is
  set.  A read fails here only at the end of the file, which does not set the indicator.\<close>

definition got_ferror :: "FILE \<Rightarrow> got_error \<Rightarrow> got_error" where
  "got_ferror f code = code"

subsection \<open>Byte order\<close>

definition be32toh :: "bytes \<Rightarrow> u32" where
  "be32toh bs = foldl (\<lambda>acc b. push_bit 8 acc OR ucast b) 0 bs"

definition be64toh :: "bytes \<Rightarrow> u64" where
  "be64toh bs = foldl (\<lambda>acc b. push_bit 8 acc OR ucast b) 0 bs"

text \<open>An array of \<open>n\<close> big-endian 32-bit integers, as \<^verbatim>\<open>betoh32(p->fanout_table[k])\<close>
  reads it.\<close>

definition be32_array :: "nat \<Rightarrow> bytes \<Rightarrow> u32 list" where
  "be32_array n raw = map (\<lambda>k. be32toh (take 4 (drop (4 * k) raw))) [0..<n]"

subsection \<open>Opening a pack index\<close>

text \<open>\<^verbatim>\<open>verify_fanout_table\<close>: the loop runs while \<^verbatim>\<open>i < 0xff - 1\<close>.\<close>

function verify_fanout_loop :: "u32 list \<Rightarrow> nat \<Rightarrow> got_error option" where
  "verify_fanout_loop ft i =
     (if i < 0xff - 1 then
        (if ft ! i > ft ! (i + 1) then Some GOT_ERR_BAD_PACKIDX
         else verify_fanout_loop ft (i + 1))
      else None)"
  by pat_completeness auto
termination
  by (relation "measure (\<lambda>(ft, i). 0xff - 1 - i)") auto

declare verify_fanout_loop.simps [simp del]

definition verify_fanout_table :: "u32 list \<Rightarrow> got_error option" where
  "verify_fanout_table ft = verify_fanout_loop ft 0"

text \<open>\<^verbatim>\<open>strrchr(s, '.')\<close> followed by \<^verbatim>\<open>*dot = '\0'\<close>: the string before its last dot.\<close>

definition cut_at_last_dot :: "string \<Rightarrow> string option" where
  "cut_at_last_dot s =
     (if CHR ''.'' \<in> set s then Some (rev (tl (dropWhile (\<lambda>c. c \<noteq> CHR ''.'') (rev s)))) else None)"

text \<open>\<^verbatim>\<open>get_packfile_size\<close>: the size of the pack file beside the index.\<close>

definition get_packfile_size :: "string \<Rightarrow> world \<Rightarrow> (got_error + nat) \<times> world" where
  "get_packfile_size path_idx w =
     (if length path_idx > PATH_MAX then (Inl GOT_ERR_NO_SPACE, w)
      else
        (case cut_at_last_dot (take (PATH_MAX - 1) path_idx) of
           None \<Rightarrow> (Inl GOT_ERR_BAD_PATH, w)
         | Some base_path \<Rightarrow>
             (case env_call w of (ok, w1) \<Rightarrow>
                if \<not> ok then (Inl GOT_ERR_NO_MEM, w1)
                else
                  (case lookup_path w1 (base_path @ ''.pack'') of
                     None \<Rightarrow> (Inl GOT_ERR_ERRNO, w1)
                   | Some bs \<Rightarrow> (Inr (length bs), w1)))))"

text \<open>The body of \<^verbatim>\<open>got_packidx_open\<close> between the allocation of the header and the
  label \<^verbatim>\<open>done\<close>.  \<open>ctx\<close> collects the bytes fed to \<^verbatim>\<open>SHA1Update\<close>.\<close>

definition packidx_read_tables ::
  "FILE \<Rightarrow> nat \<Rightarrow> bytes \<Rightarrow> u32 list \<Rightarrow> world \<Rightarrow> (got_error + got_packidx_v2_hdr) \<times> world" where
  "packidx_read_tables f3 packfile_size ctx3 ft w =
     (let nobj = unat (ft ! 0xff) in
      case env_call w of (ok1, w1) \<Rightarrow>
      if \<not> ok1 then (Inl GOT_ERR_NO_MEM, w1) else
      case fread_items 20 nobj f3 of (ids, f4) \<Rightarrow>
      if length ids \<noteq> nobj then (Inl (got_ferror f4 GOT_ERR_BAD_PACKIDX), w1) else
      case env_call w1 of (ok2, w2) \<Rightarrow>
      if \<not> ok2 then (Inl GOT_ERR_NO_MEM, w2) else
      case fread_items 4 nobj f4 of (crcs, f5) \<Rightarrow>
      if length crcs \<noteq> nobj then (Inl (got_ferror f5 GOT_ERR_BAD_PACKIDX), w2) else
      case env_call w2 of (ok3, w3) \<Rightarrow>
      if \<not> ok3 then (Inl GOT_ERR_NO_MEM, w3) else
      case fread_items 4 nobj f5 of (offs, f6) \<Rightarrow>
      if length offs \<noteq> nobj then (Inl (got_ferror f6 GOT_ERR_BAD_PACKIDX), w3) else
      let ctx6 = ctx3 @ concat ids @ concat crcs @ concat offs in
      case (if packfile_size \<le> 0x80000000 then (Inr (None, f6, ctx6), w3)
            else
              (case env_call w3 of (ok4, w4) \<Rightarrow>
               if \<not> ok4 then (Inl GOT_ERR_NO_MEM, w4) else
               case fread_items 8 nobj f6 of (loffs, f7) \<Rightarrow>
               if length loffs \<noteq> nobj then (Inl (got_ferror f7 GOT_ERR_BAD_PACKIDX), w4)
               else (Inr (Some loffs, f7, ctx6 @ concat loffs), w4)))
      of (Inl e, w5) \<Rightarrow> (Inl e, w5)
       | (Inr (loffs, f8, ctx8), w5) \<Rightarrow>
      case fread_bytes (2 * SHA1_DIGEST_LENGTH) f8 of
        (None, f9) \<Rightarrow> (Inl (got_ferror f9 GOT_ERR_BAD_PACKIDX), w5)
      | (Some trailer, f9) \<Rightarrow>
          if drop SHA1_DIGEST_LENGTH trailer \<noteq> sha1 w5 (ctx8 @ take SHA1_DIGEST_LENGTH trailer)
          then (Inl GOT_ERR_PACKIDX_CSUM, w5)
          else
            (Inr \<lparr>magic = GOT_PACKIDX_V2_MAGIC, version = GOT_PACKIDX_VERSION,
                  fanout_table = ft, sorted_ids = ids,
                  crc32 = map be32toh crcs, offsets = map be32toh offs,
                  large_offsets = map_option (map be64toh) loffs,
                  packfile_sha1 = take SHA1_DIGEST_LENGTH trailer,
                  packidx_sha1 = drop SHA1_DIGEST_LENGTH trailer\<rparr>, w5))"

definition packidx_read_hdr ::
  "FILE \<Rightarrow> nat \<Rightarrow> world \<Rightarrow> (got_error + got_packidx_v2_hdr) \<times> world" where
  "packidx_read_hdr f packfile_size w =
     (case fread_bytes 4 f of
        (None, f1) \<Rightarrow> (Inl (got_ferror f1 GOT_ERR_BAD_PACKIDX), w)
      | (Some m, f1) \<Rightarrow>
      if be32toh m \<noteq> GOT_PACKIDX_V2_MAGIC then (Inl GOT_ERR_BAD_PACKIDX, w) else
      case fread_bytes 4 f1 of
        (None, f2) \<Rightarrow> (Inl (got_ferror f2 GOT_ERR_BAD_PACKIDX), w)
      | (Some v, f2) \<Rightarrow>
      if be32toh v \<noteq> GOT_PACKIDX_VERSION then (Inl GOT_ERR_BAD_PACKIDX, w) else
      case fread_bytes (256 * 4) f2 of
        (None, f3) \<Rightarrow> (Inl (got_ferror f3 GOT_ERR_BAD_PACKIDX), w)
      | (Some raw, f3) \<Rightarrow>
      let ft = be32_array 256 raw in
      case verify_fanout_table ft of
        Some e \<Rightarrow> (Inl e, w)
      | None \<Rightarrow> packidx_read_tables f3 packfile_size (m @ v @ raw) ft w)"

text \<open>\<^verbatim>\<open>got_packidx_open\<close>.  An error of \<^verbatim>\<open>get_packfile_size\<close> returns without closing the
  stream, as the source does.\<close>

definition got_packidx_open ::
  "string \<Rightarrow> world \<Rightarrow> (got_error + got_packidx_v2_hdr) \<times> world" where
  "got_packidx_open path w =
     (case fopen path w of
        (None, w1) \<Rightarrow> (Inl GOT_ERR_ERRNO, w1)
      | (Some f, w1) \<Rightarrow>
      case get_packfile_size path w1 of
        (Inl e, w2) \<Rightarrow> (Inl e, w2)
      | (Inr packfile_size, w2) \<Rightarrow>
      case env_call w2 of (ok, w3) \<Rightarrow>
      if \<not> ok then (Inl GOT_ERR_NO_MEM, snd (fclose f w3)) else
      case packidx_read_hdr f packfile_size w3 of (r, w4) \<Rightarrow> (r, snd (fclose f w4)))"

subsection \<open>Looking an object up in an index\<close>

text \<open>\<^verbatim>\<open>get_object_offset\<close>.  The result -1 is \<open>OffsetError\<close>.  The C function reads
  \<^verbatim>\<open>large_offsets[idx]\<close> without knowing the length of the array; \<open>OffsetOutOfBounds\<close> is the
  read of an element the array does not have.\<close>

datatype offset_result = Offset int | OffsetError | OffsetOutOfBounds nat

definition get_object_offset :: "got_packidx_v2_hdr \<Rightarrow> nat \<Rightarrow> offset_result" where
  "get_object_offset packidx idx =
     (let totobj = fanout_table packidx ! 0xff;
          offset = offsets packidx ! idx
      in if offset AND GOT_PACKIDX_OFFSET_VAL_IS_LARGE_IDX \<noteq> 0 then
           (let idx' = offset AND GOT_PACKIDX_OFFSET_VAL_MASK in
            if idx' > totobj \<or> large_offsets packidx = None then OffsetError
            else
              (case large_offsets packidx of
                 Some lo \<Rightarrow>
                   if unat idx' < length lo then
                     (let loffset = lo ! unat idx' in
                      if loffset > 0x7fffffffffffffff then OffsetError else Offset (uint loffset))
                   else OffsetOutOfBounds (unat idx')))
         else Offset (uint (offset AND GOT_PACKIDX_OFFSET_VAL_MASK)))"

text \<open>\<^verbatim>\<open>get_object_idx\<close>: the loop \<^verbatim>\<open>while (i < totobj)\<close>, then the function.  The result
  -1 is \<open>None\<close>.\<close>

function get_object_idx_loop :: "got_packidx_v2_hdr \<Rightarrow> bytes \<Rightarrow> nat \<Rightarrow> nat \<Rightarrow> nat option" where
  "get_object_idx_loop packidx oid totobj i =
     (if i < totobj then
        (if oid = sorted_ids packidx ! i then Some i
         else get_object_idx_loop packidx oid totobj (i + 1))
      else None)"
  by pat_completeness auto
termination
  by (relation "measure (\<lambda>(packidx, oid, totobj, i). totobj - i)") auto

declare get_object_idx_loop.simps [simp del]

definition get_object_idx :: "got_packidx_v2_hdr \<Rightarrow> bytes \<Rightarrow> nat option" where
  "get_object_idx packidx oid =
     (let id0 = hd oid;
          totobj = unat (fanout_table packidx ! 0xff);
          i = (if id0 > 0 then unat (fanout_table packidx ! (unat id0 - 1)) else 0)
      in get_object_idx_loop packidx oid totobj i)"

subsection \<open>The object header in a pack file\<close>

text \<open>The expression \<^verbatim>\<open>(sizeN & GOT_PACK_OBJ_SIZE_VAL_MASK) << shift\<close>.  Its left operand is
  promoted to \<^verbatim>\<open>int\<close>, so the shift is a shift of 32 bits, and the result is converted to
  \<^verbatim>\<open>uint64_t\<close> with its sign when it is or-ed into \<^verbatim>\<open>s\<close>.  C does not define the shift
  when it reaches the sign bit or when \<^verbatim>\<open>shift\<close> is 32 or more (from the sixth byte of the
  header on); the model takes what the shift instructions of amd64 and arm64 give: the
  count modulo 32 and the low 32 bits of the result.\<close>

definition size_bits :: "u8 \<Rightarrow> nat \<Rightarrow> u64" where
  "size_bits sizeN shift =
     scast (push_bit (shift mod 32) (ucast (sizeN AND GOT_PACK_OBJ_SIZE_VAL_MASK) :: 32 word))"

text \<open>\<^verbatim>\<open>parse_object_type_and_size\<close>: the \<^verbatim>\<open>do ... while\<close> loop with its variables
  \<open>t\<close>, \<open>s\<close> and \<open>i\<close>, then the function.  The result is the type, the size, the length of
  the header and the stream after the header.\<close>

function parse_object_type_and_size_loop ::
  "FILE \<Rightarrow> u8 \<Rightarrow> u64 \<Rightarrow> nat \<Rightarrow> got_error + (nat \<times> u64 \<times> nat \<times> FILE)" where
  "parse_object_type_and_size_loop packfile t s i =
     (if i > 9 then Inl GOT_ERR_NO_SPACE
      else
        (case fread_bytes 1 packfile of
           (None, f') \<Rightarrow> Inl (got_ferror f' GOT_ERR_BAD_PACKIDX)
         | (Some bs, f') \<Rightarrow>
             (let sizeN = hd bs;
                  t' = (if i = 0
                        then drop_bit GOT_PACK_OBJ_SIZE0_TYPE_MASK_SHIFT
                               (sizeN AND GOT_PACK_OBJ_SIZE0_TYPE_MASK)
                        else t);
                  s' = (if i = 0 then ucast (sizeN AND GOT_PACK_OBJ_SIZE0_VAL_MASK)
                        else s OR size_bits sizeN (4 + 7 * (i - 1)))
              in if sizeN AND GOT_PACK_OBJ_SIZE_MORE \<noteq> 0
                 then parse_object_type_and_size_loop f' t' s' (i + 1)
                 else Inr (unat t', s', i + 1, f'))))"
  by pat_completeness auto
termination
  by (relation "measure (\<lambda>(packfile, t, s, i). 10 - i)") auto

declare parse_object_type_and_size_loop.simps [simp del]

definition parse_object_type_and_size ::
  "FILE \<Rightarrow> got_error + (nat \<times> u64 \<times> nat \<times> FILE)" where
  "parse_object_type_and_size packfile = parse_object_type_and_size_loop packfile 0 0 0"


subsection \<open>Pack files and the pack cache\<close>

text \<open>Modelled from the spec: \<^verbatim>\<open>got_sha1_digest_to_str\<close> (the hex form of a digest, two
  lowercase characters for each byte), which is not among the sources.\<close>

definition hexdigit :: "nat \<Rightarrow> char" where
  "hexdigit n = ''0123456789abcdef'' ! n"

definition got_sha1_digest_to_str :: "bytes \<Rightarrow> string" where
  "got_sha1_digest_to_str digest =
     concat (map (\<lambda>b. [hexdigit (unat b div 16), hexdigit (unat b mod 16)]) digest)"

text \<open>\<^verbatim>\<open>get_packfile_path\<close>: two allocations, then the name made of the pack's digest.\<close>

definition get_packfile_path :: "got_packidx_v2_hdr \<Rightarrow> world \<Rightarrow> (got_error + string) \<times> world" where
  "get_packfile_path packidx w =
     (case env_call w of (ok1, w1) \<Rightarrow>
      if \<not> ok1 then (Inl GOT_ERR_NO_MEM, w1) else
      case env_call w1 of (ok2, w2) \<Rightarrow>
      if \<not> ok2 then (Inl GOT_ERR_NO_MEM, w2)
      else (Inr (path_objects_pack @ ''/'' @ ''pack-''
                 @ got_sha1_digest_to_str (packfile_sha1 packidx) @ ''.pack''), w2))"

text \<open>\<^verbatim>\<open>read_packfile_hdr\<close>: the twelve bytes of \<^verbatim>\<open>struct got_packfile_hdr\<close>.\<close>

definition read_packfile_hdr :: "FILE \<Rightarrow> got_packidx_v2_hdr \<Rightarrow> got_error option \<times> FILE" where
  "read_packfile_hdr f packidx =
     (let totobj = fanout_table packidx ! 0xff in
      case fread_bytes 12 f of
        (None, f1) \<Rightarrow> (Some (got_ferror f1 GOT_ERR_BAD_PACKIDX), f1)
      | (Some hdr, f1) \<Rightarrow>
          if be32toh (take 4 hdr) \<noteq> GOT_PACKFILE_SIGNATURE \<or>
             be32toh (take 4 (drop 4 hdr)) \<noteq> GOT_PACKFILE_VERSION \<or>
             be32toh (take 4 (drop 8 hdr)) \<noteq> totobj
          then (Some GOT_ERR_BAD_PACKFILE, f1)
          else (None, f1))"

text \<open>\<^verbatim>\<open>dup_packidx\<close>: four allocations.  The copy has \<^verbatim>\<open>large_offsets\<close> set to
  \<^verbatim>\<open>NULL\<close> before the test \<^verbatim>\<open>if (p->large_offsets)\<close>, so the table is never copied.\<close>

definition dup_packidx :: "got_packidx_v2_hdr \<Rightarrow> world \<Rightarrow> got_packidx_v2_hdr option \<times> world" where
  "dup_packidx packidx w =
     (case env_call w of (ok1, w1) \<Rightarrow>
      if \<not> ok1 then (None, w1) else
      case env_call w1 of (ok2, w2) \<Rightarrow>
      if \<not> ok2 then (None, w2) else
      case env_call w2 of (ok3, w3) \<Rightarrow>
      if \<not> ok3 then (None, w3) else
      case env_call w3 of (ok4, w4) \<Rightarrow>
      if \<not> ok4 then (None, w4)
      else (Some (packidx\<lparr>large_offsets := None\<rparr>), w4))"

definition empty_pack_cache_entry :: pack_cache_entry where
  "empty_pack_cache_entry = \<lparr>pc_packidx = None, pc_packfile = None, pc_path_packfile = None\<rparr>"

text \<open>The index at which the loop
  \<^verbatim>\<open>for (i = 0; i < nitems(repo->pack_cache); i++) if (repo->pack_cache[i].packidx == NULL) break;\<close>
  stops.\<close>

definition pack_cache_first_free :: "pack_cache_entry list \<Rightarrow> nat" where
  "pack_cache_first_free cache = length (takeWhile (\<lambda>e. pc_packidx e \<noteq> None) cache)"

text \<open>\<^verbatim>\<open>memmove(&a[1], &a[0], sizeof(a) - sizeof(a[0]))\<close>: every element moves one place up,
  the last is lost and the first remains as it was.\<close>

definition memmove_up :: "'a list \<Rightarrow> 'a list" where
  "memmove_up a = (case a of [] \<Rightarrow> [] | x # xs \<Rightarrow> x # butlast a)"

text \<open>\<^verbatim>\<open>cache_pack\<close>.\<close>

definition cache_pack :: "got_packidx_v2_hdr \<Rightarrow> world \<Rightarrow> got_error option \<times> world" where
  "cache_pack packidx w =
     (case get_packfile_path packidx w of
        (Inl e, w1) \<Rightarrow> (Some e, w1)
      | (Inr path_packfile, w1) \<Rightarrow>
      case fopen path_packfile w1 of
        (None, w2) \<Rightarrow> (Some GOT_ERR_ERRNO, w2)
      | (Some packfile0, w2) \<Rightarrow>
      case read_packfile_hdr packfile0 packidx of
        (Some e, packfile) \<Rightarrow> (Some e, snd (fclose packfile w2))
      | (None, packfile) \<Rightarrow>
      let i0 = pack_cache_first_free (pack_cache w2);
          full = (i0 = length (pack_cache w2));
          w3 = (if full
                then (case pc_packfile (last (pack_cache w2)) of
                        Some old \<Rightarrow> snd (fclose old w2)
                      | None \<Rightarrow> w2)\<lparr>pack_cache := memmove_up (pack_cache w2)\<rparr>
                else w2);
          i = (if full then 0 else i0)
      in case dup_packidx packidx w3 of
           (Some p, w4) \<Rightarrow>
             (None, w4\<lparr>pack_cache := (pack_cache w4)
                  [i := \<lparr>pc_packidx = Some p, pc_packfile = Some packfile,
                         pc_path_packfile = Some path_packfile\<rparr>]\<rparr>)
         | (None, w4) \<Rightarrow>
             (None, (snd (fclose packfile w4))\<lparr>pack_cache := (pack_cache w4)
                  [i := (pack_cache w4 ! i)\<lparr>pc_packidx := None\<rparr>]\<rparr>))"

text \<open>\<^verbatim>\<open>is_packidx_filename\<close>.\<close>

definition GOT_PACK_PREFIX :: string where "GOT_PACK_PREFIX = ''pack-''"
definition GOT_PACKIDX_SUFFIX :: string where "GOT_PACKIDX_SUFFIX = ''.idx''"
definition SHA1_DIGEST_STRING_LENGTH :: nat where "SHA1_DIGEST_STRING_LENGTH = 41"
definition GOT_PACKIDX_NAMELEN :: nat where
  "GOT_PACKIDX_NAMELEN =
     length GOT_PACK_PREFIX + SHA1_DIGEST_STRING_LENGTH - 1 + length GOT_PACKIDX_SUFFIX"

definition is_packidx_filename :: "string \<Rightarrow> bool" where
  "is_packidx_filename name =
     (if length name \<noteq> GOT_PACKIDX_NAMELEN then False
      else if take (length GOT_PACK_PREFIX) name \<noteq> GOT_PACK_PREFIX then False
      else if drop (length GOT_PACK_PREFIX + SHA1_DIGEST_STRING_LENGTH - 1) name
                \<noteq> GOT_PACKIDX_SUFFIX then False
      else True)"

text \<open>\<^verbatim>\<open>search_packidx\<close>, first part: the loop over the pack cache, which stops at the
  first free slot and returns the first cached index that has the id.\<close>

fun search_pack_cache :: "pack_cache_entry list \<Rightarrow> bytes \<Rightarrow> (got_packidx_v2_hdr \<times> nat) option" where
  "search_pack_cache [] oid = None"
| "search_pack_cache (e # es) oid =
     (case pc_packidx e of
        None \<Rightarrow> None
      | Some p \<Rightarrow>
          (case get_object_idx p oid of
             Some idx \<Rightarrow> Some (p, idx)
           | None \<Rightarrow> search_pack_cache es oid))"

text \<open>Second part: the \<^verbatim>\<open>readdir\<close> loop over the names of the pack directory.  The error
  of \<^verbatim>\<open>cache_pack\<close> is dropped, as in the source.\<close>

fun search_packdir ::
  "string list \<Rightarrow> bytes \<Rightarrow> world \<Rightarrow> (got_error + got_packidx_v2_hdr \<times> nat) \<times> world" where
  "search_packdir [] oid w = (Inl GOT_ERR_NO_OBJ, w)"
| "search_packdir (d_name # dents) oid w =
     (if \<not> is_packidx_filename d_name then search_packdir dents oid w
      else
        case env_call w of (ok, w1) \<Rightarrow>
        if \<not> ok then (Inl GOT_ERR_NO_MEM, w1) else
        case got_packidx_open (path_objects_pack @ ''/'' @ d_name) w1 of
          (Inl e, w2) \<Rightarrow> (Inl e, w2)
        | (Inr packidx, w2) \<Rightarrow>
            (case get_object_idx packidx oid of
               Some idx \<Rightarrow> (Inr (packidx, idx), snd (cache_pack packidx w2))
             | None \<Rightarrow> search_packdir dents oid w2))"

definition search_packidx ::
  "bytes \<Rightarrow> world \<Rightarrow> (got_error + got_packidx_v2_hdr \<times> nat) \<times> world" where
  "search_packidx oid w =
     (case search_pack_cache (pack_cache w) oid of
        Some (p, idx) \<Rightarrow>
          (case dup_packidx p w of
             (None, w1) \<Rightarrow> (Inl GOT_ERR_NO_MEM, w1)
           | (Some p', w1) \<Rightarrow> (Inr (p', idx), w1))
      | None \<Rightarrow>
          case env_call w of (ok1, w1) \<Rightarrow>
          if \<not> ok1 then (Inl GOT_ERR_NO_MEM, w1) else
          case env_call w1 of (ok2, w2) \<Rightarrow>
          if \<not> ok2 then (Inl GOT_ERR_ERRNO, w2) else
          case search_packdir (map fst (packdir w2)) oid w2 of (r, w3) \<Rightarrow>
          case env_call w3 of (ok3, w4) \<Rightarrow>
          (if \<not> ok3 \<and> \<not> isl r then Inl GOT_ERR_ERRNO else r, w4))"

text \<open>\<^verbatim>\<open>open_packfile\<close>: the cached stream of the pack whose index has the same trailer,
  or a newly opened one.  The last component is \<^verbatim>\<open>is_cached\<close>.\<close>

fun open_packfile_cached ::
  "pack_cache_entry list \<Rightarrow> got_packidx_v2_hdr \<Rightarrow> (FILE option \<times> string option) option" where
  "open_packfile_cached [] packidx = None"
| "open_packfile_cached (e # es) packidx =
     (case pc_packidx e of
        None \<Rightarrow> None
      | Some p \<Rightarrow>
          if (packfile_sha1 packidx, packidx_sha1 packidx) \<noteq> (packfile_sha1 p, packidx_sha1 p)
          then open_packfile_cached es packidx
          else Some (pc_packfile e, pc_path_packfile e))"

definition open_packfile ::
  "got_packidx_v2_hdr \<Rightarrow> world \<Rightarrow> (got_error + FILE \<times> string \<times> bool) \<times> world" where
  "open_packfile packidx w =
     (case open_packfile_cached (pack_cache w) packidx of
        Some (Some packfile, Some path_packfile) \<Rightarrow> (Inr (packfile, path_packfile, True), w)
      | Some _ \<Rightarrow> (Inl UNDEFINED_BEHAVIOUR, w)
      | None \<Rightarrow>
          case get_packfile_path packidx w of
            (Inl e, w1) \<Rightarrow> (Inl e, w1)
          | (Inr path_packfile, w1) \<Rightarrow>
          case fopen path_packfile w1 of
            (None, w2) \<Rightarrow> (Inl GOT_ERR_ERRNO, w2)
          | (Some packfile0, w2) \<Rightarrow>
          case read_packfile_hdr packfile0 packidx of
            (Some e, packfile) \<Rightarrow> (Inl e, snd (fclose packfile w2))
          | (None, packfile) \<Rightarrow> (Inr (packfile, path_packfile, False), w2))"

subsection \<open>Resolving a delta chain\<close>

text \<open>\<^verbatim>\<open>parse_negative_offset\<close>: the \<^verbatim>\<open>do ... while\<close> loop over the \<^verbatim>\<open>int64_t\<close>
  accumulator, then the function.  The accumulator is a 64-bit word, read as signed at the
  end.\<close>

function parse_negative_offset_loop ::
  "FILE \<Rightarrow> u64 \<Rightarrow> nat \<Rightarrow> got_error + (int \<times> nat \<times> FILE)" where
  "parse_negative_offset_loop packfile acc i =
     (if i > 8 then Inl GOT_ERR_NO_SPACE
      else
        (case fread_bytes 1 packfile of
           (None, f') \<Rightarrow> Inl (got_ferror f' GOT_ERR_BAD_PACKIDX)
         | (Some bs, f') \<Rightarrow>
             (let offN = hd bs;
                  acc' = (if i = 0 then ucast (offN AND GOT_PACK_OBJ_DELTA_OFF_VAL_MASK)
                          else push_bit 7 (acc + 1)
                               + ucast (offN AND GOT_PACK_OBJ_DELTA_OFF_VAL_MASK))
              in if offN AND GOT_PACK_OBJ_DELTA_OFF_MORE \<noteq> 0
                 then parse_negative_offset_loop f' acc' (i + 1)
                 else Inr (sint acc', i + 1, f'))))"
  by pat_completeness auto
termination
  by (relation "measure (\<lambda>(packfile, acc, i). 9 - i)") auto

declare parse_negative_offset_loop.simps [simp del]

definition parse_negative_offset :: "FILE \<Rightarrow> got_error + (int \<times> nat \<times> FILE)" where
  "parse_negative_offset packfile = parse_negative_offset_loop packfile 0 0"

text \<open>A result of \<^verbatim>\<open>off_t\<close> arithmetic: the value that 64 bits in two's complement
  hold.  C does not define the overflow; the model wraps.\<close>

definition off_t_wrap :: "int \<Rightarrow> int" where
  "off_t_wrap x = sint (word_of_int x :: 64 word)"

text \<open>\<^verbatim>\<open>parse_offset_delta\<close>.\<close>

definition parse_offset_delta :: "FILE \<Rightarrow> int \<Rightarrow> got_error + (int \<times> FILE)" where
  "parse_offset_delta packfile offset =
     (case parse_negative_offset packfile of
        Inl e \<Rightarrow> Inl e
      | Inr (negoffset, negofflen, f') \<Rightarrow>
          (let base_offset = off_t_wrap (offset - negoffset) in
           if base_offset \<le> 0 then Inl GOT_ERR_BAD_PACKFILE else Inr (base_offset, f')))"

text \<open>\<^verbatim>\<open>add_delta\<close>: \<^verbatim>\<open>got_delta_open\<close> allocates the entry, which goes to the head of the
  queue.\<close>

definition add_delta ::
  "got_delta_chain \<Rightarrow> string \<Rightarrow> int \<Rightarrow> nat \<Rightarrow> nat \<Rightarrow> nat \<Rightarrow> int \<Rightarrow> world
     \<Rightarrow> (got_error + got_delta_chain) \<times> world" where
  "add_delta deltas path_packfile delta_offset tslen delta_type delta_size delta_data_offset w =
     (case env_call w of (ok, w1) \<Rightarrow>
      if \<not> ok then (Inl GOT_ERR_NO_MEM, w1)
      else (Inr \<lparr>nentries = nentries deltas + 1,
                 entries = \<lparr>d_path_packfile = path_packfile, d_offset = delta_offset,
                             d_tslen = tslen, d_type = delta_type, d_size = delta_size,
                             d_data_offset = delta_data_offset\<rparr> # entries deltas\<rparr>, w1))"

definition is_plain_type :: "nat \<Rightarrow> bool" where
  "is_plain_type t \<longleftrightarrow>
     t = GOT_OBJ_TYPE_COMMIT \<or> t = GOT_OBJ_TYPE_TREE \<or> t = GOT_OBJ_TYPE_BLOB \<or> t = GOT_OBJ_TYPE_TAG"

text \<open>The label \<^verbatim>\<open>done\<close> of \<^verbatim>\<open>resolve_ref_delta\<close>: a stream that is not the cache's is
  closed, and a failing \<^verbatim>\<open>fclose\<close> becomes the error when there was none.\<close>

definition resolve_ref_delta_done ::
  "bool \<Rightarrow> FILE \<Rightarrow> (got_error + got_delta_chain) \<times> world \<Rightarrow> (got_error + got_delta_chain) \<times> world" where
  "resolve_ref_delta_done pack_cached base_packfile rw =
     (case rw of (r, w) \<Rightarrow>
      if pack_cached then (r, w)
      else case fclose base_packfile w of (ok, w1) \<Rightarrow>
           (if \<not> ok \<and> \<not> isl r then Inl GOT_ERR_ERRNO else r, w1))"

text \<open>
  \<^verbatim>\<open>resolve_delta_chain\<close>, \<^verbatim>\<open>resolve_offset_delta\<close> and \<^verbatim>\<open>resolve_ref_delta\<close> call each other
  with no bound in the source.  Here the two helpers take the function they call for the
  base as their first argument \<open>resolve\<close> (the forward declaration of the source), and
  \<^verbatim>\<open>resolve_delta_chain\<close> takes the number of its own calls still allowed; \<open>None\<close> says that
  they did not suffice.  The C recursion returns exactly when some number suffices.
\<close>

type_synonym resolve_result = "((got_error + got_delta_chain) \<times> world) option"

type_synonym resolver =
  "got_delta_chain \<Rightarrow> FILE \<Rightarrow> string \<Rightarrow> int \<Rightarrow> nat \<Rightarrow> nat \<Rightarrow> nat \<Rightarrow> world \<Rightarrow> resolve_result"

definition resolve_offset_delta :: "resolver \<Rightarrow> resolver" where
  "resolve_offset_delta resolve deltas packfile path_packfile delta_offset tslen delta_type
       delta_size w =
     (case parse_offset_delta packfile delta_offset of
        Inl e \<Rightarrow> Some (Inl e, w)
      | Inr (base_offset, f1) \<Rightarrow>
      case ftello f1 w of
        (None, w1) \<Rightarrow> Some (Inl GOT_ERR_ERRNO, w1)
      | (Some delta_data_offset, w1) \<Rightarrow>
      case add_delta deltas path_packfile delta_offset tslen delta_type delta_size
             delta_data_offset w1 of
        (Inl e, w2) \<Rightarrow> Some (Inl e, w2)
      | (Inr deltas', w2) \<Rightarrow>
      case fseeko f1 base_offset w2 of
        (None, w3) \<Rightarrow> Some (Inl GOT_ERR_ERRNO, w3)
      | (Some f2, w3) \<Rightarrow>
      case parse_object_type_and_size f2 of
        Inl e \<Rightarrow> Some (Inl e, w3)
      | Inr (base_type, base_size, base_tslen, f3) \<Rightarrow>
          resolve deltas' f3 path_packfile base_offset base_tslen base_type
            (unat base_size) w3)"

definition resolve_ref_delta :: "resolver \<Rightarrow> resolver" where
  "resolve_ref_delta resolve deltas packfile path_packfile delta_offset tslen delta_type
       delta_size w =
     (case fread_bytes SHA1_DIGEST_LENGTH packfile of
        (None, f1) \<Rightarrow> Some (Inl (got_ferror f1 GOT_ERR_IO), w)
      | (Some oid, f1) \<Rightarrow>
      case ftello f1 w of
        (None, w1) \<Rightarrow> Some (Inl GOT_ERR_ERRNO, w1)
      | (Some delta_data_offset, w1) \<Rightarrow>
      case add_delta deltas path_packfile delta_offset tslen delta_type delta_size
             delta_data_offset w1 of
        (Inl e, w2) \<Rightarrow> Some (Inl e, w2)
      | (Inr deltas', w2) \<Rightarrow>
      case search_packidx oid w2 of
        (Inl e, w3) \<Rightarrow> Some (Inl e, w3)
      | (Inr (packidx, idx), w3) \<Rightarrow>
      case get_object_offset packidx idx of
        OffsetError \<Rightarrow> Some (Inl GOT_ERR_BAD_PACKIDX, w3)
      | OffsetOutOfBounds k \<Rightarrow> Some (Inl UNDEFINED_BEHAVIOUR, w3)
      | Offset base_offset \<Rightarrow>
      case open_packfile packidx w3 of
        (Inl e, w4) \<Rightarrow> Some (Inl e, w4)
      | (Inr (base_packfile, path_base_packfile, pack_cached), w4) \<Rightarrow>
      case fseeko base_packfile base_offset w4 of
        (None, w5) \<Rightarrow>
          Some (resolve_ref_delta_done pack_cached base_packfile (Inl GOT_ERR_ERRNO, w5))
      | (Some f2, w5) \<Rightarrow>
      case parse_object_type_and_size f2 of
        Inl e \<Rightarrow> Some (resolve_ref_delta_done pack_cached base_packfile (Inl e, w5))
      | Inr (base_type, base_size, base_tslen, f3) \<Rightarrow>
          map_option (resolve_ref_delta_done pack_cached base_packfile)
            (resolve deltas' f3 path_base_packfile base_offset base_tslen
               base_type (unat base_size) w5))"

primrec resolve_delta_chain :: "nat \<Rightarrow> resolver" where
  "resolve_delta_chain 0 =
     (\<lambda>deltas packfile path_packfile delta_offset tslen delta_type delta_size w. None)"
| "resolve_delta_chain (Suc fuel) =
     (\<lambda>deltas packfile path_packfile delta_offset tslen delta_type delta_size w.
        if is_plain_type delta_type then
          Some (add_delta deltas path_packfile delta_offset tslen delta_type delta_size 0 w)
        else if delta_type = GOT_OBJ_TYPE_OFFSET_DELTA then
          resolve_offset_delta (resolve_delta_chain fuel) deltas packfile path_packfile
            delta_offset tslen delta_type delta_size w
        else if delta_type = GOT_OBJ_TYPE_REF_DELTA then
          resolve_ref_delta (resolve_delta_chain fuel) deltas packfile path_packfile
            delta_offset tslen delta_type delta_size w
        else Some (Inl GOT_ERR_NOT_IMPL, w))"

subsection \<open>The helpers of zbuf.c and delta.c\<close>

text \<open>Modelled from the spec: \<^verbatim>\<open>got_inflate_to_mem\<close> and \<^verbatim>\<open>got_inflate_to_file\<close> of zbuf.c,
  which is not among the sources.  Both inflate the compressed stream that starts at the
  position of the pack file; the first returns the bytes in a new buffer, the second
  writes them to the output file and returns their number.  The spec leaves open how far
  the position of the pack file moves, and every caller in pack.c seeks before it reads
  again, so the stream of the pack file is not returned.  When inflation fails the
  out-parameters are taken to be \<^verbatim>\<open>NULL\<close> and 0.\<close>

definition got_inflate_to_mem :: "FILE \<Rightarrow> world \<Rightarrow> (got_error + bytes) \<times> world" where
  "got_inflate_to_mem f w =
     (case env_call w of (ok, w1) \<Rightarrow>
      if \<not> ok then (Inl GOT_ERR_NO_MEM, w1)
      else (inflate w1 (drop (fpos f) (fbytes f)), w1))"

definition got_inflate_to_file ::
  "FILE \<Rightarrow> FILE \<Rightarrow> world \<Rightarrow> (got_error + nat \<times> FILE) \<times> world" where
  "got_inflate_to_file f outfile w =
     (case inflate w (drop (fpos f) (fbytes f)) of
        Inl e \<Rightarrow> (Inl e, w)
      | Inr out \<Rightarrow>
          (case fwrite out outfile w of
             (None, w1) \<Rightarrow> (Inl GOT_ERR_IO, w1)
           | (Some outfile', w1) \<Rightarrow> (Inr (length out, outfile'), w1)))"

text \<open>Modelled from the spec: delta application (section 4.4), for
  \<^verbatim>\<open>got_delta_get_sizes\<close>, \<^verbatim>\<open>got_delta_apply_in_mem\<close> and \<^verbatim>\<open>got_delta_apply\<close> of delta.c, which
  is not among the sources.  A size is a sequence of bytes with seven bits each, least
  significant first, the top bit saying that another byte follows.  A command byte with
  the top bit set copies from the base: its bits 0 to 3 say which of four offset bytes
  follow, its bits 4 to 6 which of three size bytes, and a size of 0 stands for 0x10000.
  Any other command byte but 0 inserts that many bytes of the delta.  Every failure is a
  \<open>GOT_ERR_BAD_DELTA_CHAIN\<close>.\<close>

fun delta_varint :: "nat \<Rightarrow> nat \<Rightarrow> bytes \<Rightarrow> (nat \<times> bytes) option" where
  "delta_varint shift acc [] = None"
| "delta_varint shift acc (b # bs) =
     (let acc' = acc + unat (b AND 0x7f) * 2 ^ shift
      in if b AND 0x80 \<noteq> 0 then delta_varint (shift + 7) acc' bs else Some (acc', bs))"

definition got_delta_get_sizes :: "bytes \<Rightarrow> got_error + (nat \<times> nat \<times> bytes)" where
  "got_delta_get_sizes delta_buf =
     (case delta_varint 0 0 delta_buf of
        None \<Rightarrow> Inl GOT_ERR_BAD_DELTA_CHAIN
      | Some (base_size, rest) \<Rightarrow>
          (case delta_varint 0 0 rest of
             None \<Rightarrow> Inl GOT_ERR_BAD_DELTA_CHAIN
           | Some (result_size, cmds) \<Rightarrow> Inr (base_size, result_size, cmds)))"

fun delta_copy_arg :: "bool list \<Rightarrow> nat \<Rightarrow> bytes \<Rightarrow> (nat \<times> bytes) option" where
  "delta_copy_arg [] shift bs = Some (0, bs)"
| "delta_copy_arg (False # present) shift bs = delta_copy_arg present (shift + 8) bs"
| "delta_copy_arg (True # present) shift [] = None"
| "delta_copy_arg (True # present) shift (b # bs) =
     (case delta_copy_arg present (shift + 8) bs of
        None \<Rightarrow> None
      | Some (v, rest) \<Rightarrow> Some (unat b * 2 ^ shift + v, rest))"

lemma delta_copy_arg_length:
  "delta_copy_arg present shift bs = Some (v, rest) \<Longrightarrow> length rest \<le> length bs"
proof (induction present shift bs arbitrary: v rest rule: delta_copy_arg.induct)
  case (4 present shift b bs)
  then show ?case by (auto split: option.splits)
qed auto

function delta_commands :: "bytes \<Rightarrow> bytes \<Rightarrow> bytes \<Rightarrow> got_error + bytes" where
  "delta_commands base [] out = Inr out"
| "delta_commands base (c # rest) out =
     (if c AND 0x80 \<noteq> 0 then
        (case delta_copy_arg (map (bit c) [0, 1, 2, 3]) 0 rest of
           None \<Rightarrow> Inl GOT_ERR_BAD_DELTA_CHAIN
         | Some (offset, rest1) \<Rightarrow>
             (case delta_copy_arg (map (bit c) [4, 5, 6]) 0 rest1 of
                None \<Rightarrow> Inl GOT_ERR_BAD_DELTA_CHAIN
              | Some (sz0, rest2) \<Rightarrow>
                  (let sz = (if sz0 = 0 then 0x10000 else sz0) in
                   if offset + sz > length base then Inl GOT_ERR_BAD_DELTA_CHAIN
                   else delta_commands base rest2 (out @ take sz (drop offset base)))))
      else if c \<noteq> 0 then
        (if length rest < unat c then Inl GOT_ERR_BAD_DELTA_CHAIN
         else delta_commands base (drop (unat c) rest) (out @ take (unat c) rest))
      else Inl GOT_ERR_BAD_DELTA_CHAIN)"
  by pat_completeness auto
termination
proof (relation "measure (\<lambda>(base, delta, out). length delta)")
  show "wf (measure (\<lambda>(base, delta, out). length delta))" by simp
next
  fix base :: bytes and c :: u8 and rest out :: bytes and x2 x y x2a xa ya xb
  assume "delta_copy_arg (map (bit c) [0, 1, 2, 3]) 0 rest = Some x2" "(x, y) = x2"
    "delta_copy_arg (map (bit c) [4, 5, 6]) 0 y = Some x2a" "(xa, ya) = x2a"
  then have "length y \<le> length rest" "length ya \<le> length y"
    by (metis delta_copy_arg_length)+
  then show "((base, ya, out @ take xb (drop x base)), base, c # rest, out)
       \<in> measure (\<lambda>(base, delta, out). length delta)"
    by simp
next
  fix base :: bytes and c :: u8 and rest out :: bytes
  show "((base, drop (unat c) rest, out @ take (unat c) rest), base, c # rest, out)
       \<in> measure (\<lambda>(base, delta, out). length delta)"
    by simp
qed

definition delta_apply :: "bytes \<Rightarrow> bytes \<Rightarrow> got_error + bytes" where
  "delta_apply base delta_buf =
     (case got_delta_get_sizes delta_buf of
        Inl e \<Rightarrow> Inl e
      | Inr (base_size, result_size, cmds) \<Rightarrow>
          if base_size \<noteq> length base then Inl GOT_ERR_BAD_DELTA_CHAIN
          else
            (case delta_commands base cmds [] of
               Inl e \<Rightarrow> Inl e
             | Inr out \<Rightarrow>
                 if length out \<noteq> result_size then Inl GOT_ERR_BAD_DELTA_CHAIN else Inr out))"

text \<open>\<^verbatim>\<open>got_delta_apply_in_mem\<close> applies the delta to the base buffer; the result is what
  it leaves in the accumulation buffer, and the length of the result is what it stores in
  \<^verbatim>\<open>accum_size\<close>.  \<^verbatim>\<open>got_delta_apply\<close> applies the delta to the bytes of the base file and
  writes the result to the output file at its position.\<close>

definition got_delta_apply_in_mem :: "bytes \<Rightarrow> bytes \<Rightarrow> got_error + bytes" where
  "got_delta_apply_in_mem base_buf delta_buf = delta_apply base_buf delta_buf"

definition got_delta_apply ::
  "FILE \<Rightarrow> bytes \<Rightarrow> FILE \<Rightarrow> world \<Rightarrow> (got_error + FILE) \<times> world" where
  "got_delta_apply base_file delta_buf outfile w =
     (case delta_apply (fbytes base_file) delta_buf of
        Inl e \<Rightarrow> (Inl e, w)
      | Inr out \<Rightarrow>
          (case fwrite out outfile w of
             (None, w1) \<Rightarrow> (Inl GOT_ERR_IO, w1)
           | (Some outfile', w1) \<Rightarrow> (Inr outfile', w1)))"

subsection \<open>The delta cache\<close>

definition clear_delta_cache_entry :: "got_delta_cache_entry \<Rightarrow> got_delta_cache_entry" where
  "clear_delta_cache_entry entry =
     \<lparr>dce_data_offset = 0, dce_delta_buf = None, dce_delta_len = 0\<rparr>"

text \<open>\<^verbatim>\<open>add_delta_cache_entry\<close>: the first free entry takes the delta; when there is none,
  the last entry is cleared, the others move one place up and entry 0 takes it.\<close>

definition add_delta_cache_entry ::
  "got_delta_cache \<Rightarrow> int \<Rightarrow> bytes \<Rightarrow> nat \<Rightarrow> got_delta_cache" where
  "add_delta_cache_entry cache data_offset delta_buf delta_len =
     (let ds = dc_deltas cache;
          i0 = length (takeWhile (\<lambda>e. dce_data_offset e \<noteq> 0) ds);
          full = (i0 = length ds);
          ds1 = (if full
                 then memmove_up (ds[length ds - 1 := clear_delta_cache_entry (ds ! (length ds - 1))])
                 else ds);
          i = (if full then 0 else i0)
      in cache\<lparr>dc_deltas := ds1[i := \<lparr>dce_data_offset = data_offset,
                                        dce_delta_buf = Some delta_buf,
                                        dce_delta_len = delta_len\<rparr>]\<rparr>)"

text \<open>The first loop of \<^verbatim>\<open>cache_delta\<close>: the index at which it stops, and whether it
  stopped at the cache of this pack.\<close>

fun cache_delta_find :: "got_delta_cache list \<Rightarrow> string \<Rightarrow> nat \<Rightarrow> nat \<times> bool" where
  "cache_delta_find [] path_packfile i = (i, False)"
| "cache_delta_find (cache # caches) path_packfile i =
     (case dc_path_packfile cache of
        None \<Rightarrow> (i, False)
      | Some p \<Rightarrow>
          if p = path_packfile then (i, True)
          else cache_delta_find caches path_packfile (i + 1))"

text \<open>The loop over \<^verbatim>\<open>j\<close> in \<^verbatim>\<open>cache_delta\<close>: the entries of the evicted cache are
  cleared up to the first free one.\<close>

fun clear_delta_cache_entries :: "got_delta_cache_entry list \<Rightarrow> got_delta_cache_entry list" where
  "clear_delta_cache_entries [] = []"
| "clear_delta_cache_entries (entry # es) =
     (if dce_data_offset entry = 0 then entry # es
      else clear_delta_cache_entry entry # clear_delta_cache_entries es)"

text \<open>\<^verbatim>\<open>cache_delta\<close>.  After the \<^verbatim>\<open>memmove\<close> slot 0 still holds what it held, and only
  its path is set anew.\<close>

definition cache_delta ::
  "int \<Rightarrow> bytes \<Rightarrow> nat \<Rightarrow> string \<Rightarrow> world \<Rightarrow> got_error option \<times> world" where
  "cache_delta data_offset delta_buf delta_len path_packfile w =
     (let dc = delta_cache w in
      case cache_delta_find dc path_packfile 0 of
        (i, True) \<Rightarrow>
          (None, w\<lparr>delta_cache :=
                     dc[i := add_delta_cache_entry (dc ! i) data_offset delta_buf delta_len]\<rparr>)
      | (i0, False) \<Rightarrow>
          let full = (i0 = length dc);
              dc1 = (if full
                     then memmove_up
                            (dc[length dc - 1 :=
                                  \<lparr>dc_path_packfile = None,
                                   dc_deltas = clear_delta_cache_entries
                                                 (dc_deltas (dc ! (length dc - 1)))\<rparr>])
                     else dc);
              i = (if full then 0 else i0)
          in case env_call w of (ok, w1) \<Rightarrow>
             if \<not> ok
             then (Some GOT_ERR_NO_MEM,
                   w1\<lparr>delta_cache := dc1[i := (dc1 ! i)\<lparr>dc_path_packfile := None\<rparr>]\<rparr>)
             else (None,
                   w1\<lparr>delta_cache :=
                        dc1[i := add_delta_cache_entry
                                   ((dc1 ! i)\<lparr>dc_path_packfile := Some path_packfile\<rparr>)
                                   data_offset delta_buf delta_len]\<rparr>))"

text \<open>\<^verbatim>\<open>get_cached_delta\<close>: the two loops.\<close>

fun get_cached_delta_cache :: "got_delta_cache list \<Rightarrow> string \<Rightarrow> got_delta_cache option" where
  "get_cached_delta_cache [] path_packfile = None"
| "get_cached_delta_cache (cache # caches) path_packfile =
     (case dc_path_packfile cache of
        None \<Rightarrow> None
      | Some p \<Rightarrow>
          if p = path_packfile then Some cache
          else get_cached_delta_cache caches path_packfile)"

fun get_cached_delta_entry :: "got_delta_cache_entry list \<Rightarrow> int \<Rightarrow> bytes option \<times> nat" where
  "get_cached_delta_entry [] data_offset = (None, 0)"
| "get_cached_delta_entry (entry # es) data_offset =
     (if dce_data_offset entry = 0 then (None, 0)
      else if dce_data_offset entry = data_offset
           then (dce_delta_buf entry, dce_delta_len entry)
           else get_cached_delta_entry es data_offset)"

definition get_cached_delta :: "int \<Rightarrow> string \<Rightarrow> world \<Rightarrow> bytes option \<times> nat" where
  "get_cached_delta data_offset path_packfile w =
     (case get_cached_delta_cache (delta_cache w) path_packfile of
        None \<Rightarrow> (None, 0)
      | Some cache \<Rightarrow> get_cached_delta_entry (dc_deltas cache) data_offset)"

subsection \<open>The sizes of a delta chain\<close>

text \<open>\<^verbatim>\<open>get_delta_sizes\<close>.\<close>

definition get_delta_sizes ::
  "got_delta \<Rightarrow> FILE \<Rightarrow> world \<Rightarrow> (got_error + nat \<times> nat) \<times> world" where
  "get_delta_sizes delta packfile w =
     (case fseeko packfile (d_data_offset delta) w of
        (None, w1) \<Rightarrow> (Inl GOT_ERR_ERRNO, w1)
      | (Some f1, w1) \<Rightarrow>
      case got_inflate_to_mem f1 w1 of
        (Inl e, w2) \<Rightarrow> (Inl e, w2)
      | (Inr delta_buf, w2) \<Rightarrow>
          (case got_delta_get_sizes delta_buf of
             Inl e \<Rightarrow> (Inl e, w2)
           | Inr (base_size, result_size, cmds) \<Rightarrow> (Inr (base_size, result_size), w2)))"

text \<open>\<^verbatim>\<open>get_delta_chain_max_size\<close>: the loop over the queue with its variables
  \<^verbatim>\<open>max_size\<close>, \<^verbatim>\<open>base_size\<close> and \<^verbatim>\<open>result_size\<close>, then the function.\<close>

fun get_delta_chain_max_size_loop ::
  "got_delta list \<Rightarrow> FILE \<Rightarrow> nat \<Rightarrow> nat \<Rightarrow> nat \<Rightarrow> world \<Rightarrow> (got_error + nat) \<times> world" where
  "get_delta_chain_max_size_loop [] packfile max_size base_size result_size w =
     (Inr max_size, w)"
| "get_delta_chain_max_size_loop (delta # rest) packfile max_size base_size result_size w =
     (if \<not> is_plain_type (d_type delta) then
        (case get_delta_sizes delta packfile w of
           (Inl e, w1) \<Rightarrow> (Inl e, w1)
         | (Inr (base_size', result_size'), w1) \<Rightarrow>
             get_delta_chain_max_size_loop rest packfile
               (max (max max_size base_size') result_size') base_size' result_size' w1)
      else
        get_delta_chain_max_size_loop rest packfile
          (max (max max_size (d_size delta)) result_size) (d_size delta) result_size w)"

definition get_delta_chain_max_size ::
  "got_delta_chain \<Rightarrow> FILE \<Rightarrow> world \<Rightarrow> (got_error + nat) \<times> world" where
  "get_delta_chain_max_size deltas packfile w =
     get_delta_chain_max_size_loop (entries deltas) packfile 0 0 0 w"

subsection \<open>Applying a delta chain\<close>

text \<open>Two blocks stand twice in the source, word for word, in
  \<^verbatim>\<open>dump_delta_chain_to_file\<close> and in \<^verbatim>\<open>dump_delta_chain_to_mem\<close>.  The first inflates the
  base into memory and enlarges the buffer to \<^verbatim>\<open>max_size\<close>; the second gets the delta from
  the delta cache, or inflates it and puts it there.\<close>

definition inflate_base_to_mem :: "FILE \<Rightarrow> nat \<Rightarrow> world \<Rightarrow> (got_error + bytes) \<times> world" where
  "inflate_base_to_mem packfile max_size w =
     (case got_inflate_to_mem packfile w of (r, w1) \<Rightarrow>
      let base_len = (case r of Inl e \<Rightarrow> 0 | Inr base_buf \<Rightarrow> length base_buf) in
      if base_len < max_size then
        (case env_call w1 of (ok, w2) \<Rightarrow> if \<not> ok then (Inl GOT_ERR_NO_MEM, w2) else (r, w2))
      else (r, w1))"

definition fetch_delta_buf ::
  "got_delta \<Rightarrow> FILE \<Rightarrow> string \<Rightarrow> world \<Rightarrow> (got_error + bytes) \<times> world" where
  "fetch_delta_buf delta packfile path_packfile w =
     (case get_cached_delta (d_data_offset delta) path_packfile w of
        (Some delta_buf, delta_len) \<Rightarrow> (Inr (take delta_len delta_buf), w)
      | (None, delta_len) \<Rightarrow>
          case fseeko packfile (d_data_offset delta) w of
            (None, w1) \<Rightarrow> (Inl GOT_ERR_ERRNO, w1)
          | (Some f1, w1) \<Rightarrow>
          case got_inflate_to_mem f1 w1 of
            (Inl e, w2) \<Rightarrow> (Inl e, w2)
          | (Inr delta_buf, w2) \<Rightarrow>
          case cache_delta (d_data_offset delta) delta_buf (length delta_buf) path_packfile w2 of
            (Some e, w3) \<Rightarrow> (Inl e, w3)
          | (None, w3) \<Rightarrow> (Inr delta_buf, w3))"

text \<open>The local variables of \<^verbatim>\<open>dump_delta_chain_to_mem\<close>.  A buffer is the list of the
  bytes the code has put into it.  \<^verbatim>\<open>accum_size\<close> is not initialised in C: it is \<open>None\<close>
  until a delta has been applied, and a read of it before that leaves what C defines.\<close>

record mem_vars =
  mv_n :: nat
  mv_base_buf :: "bytes option"
  mv_accum_buf :: bytes
  mv_accum_size :: "nat option"

text \<open>The loop \<^verbatim>\<open>SIMPLEQ_FOREACH\<close> of \<^verbatim>\<open>dump_delta_chain_to_mem\<close>: the error with which
  it went to \<^verbatim>\<open>done\<close>, if any, and the variables there.\<close>

fun dump_delta_chain_to_mem_loop ::
  "got_delta list \<Rightarrow> nat \<Rightarrow> nat \<Rightarrow> FILE \<Rightarrow> string \<Rightarrow> mem_vars \<Rightarrow> world
     \<Rightarrow> got_error option \<times> mem_vars \<times> world" where
  "dump_delta_chain_to_mem_loop [] n_entries max_size packfile path_packfile v w = (None, v, w)"
| "dump_delta_chain_to_mem_loop (delta # rest) n_entries max_size packfile path_packfile v w =
     (if mv_n v = 0 then
        (if \<not> is_plain_type (d_type delta) then (Some GOT_ERR_BAD_DELTA_CHAIN, v, w)
         else
           case fseeko packfile (d_offset delta + int (d_tslen delta)) w of
             (None, w1) \<Rightarrow> (Some GOT_ERR_ERRNO, v, w1)
           | (Some f1, w1) \<Rightarrow>
           case inflate_base_to_mem f1 max_size w1 of
             (Inl e, w2) \<Rightarrow> (Some e, v, w2)
           | (Inr base_buf, w2) \<Rightarrow>
               dump_delta_chain_to_mem_loop rest n_entries max_size packfile path_packfile
                 (v\<lparr>mv_n := 1, mv_base_buf := Some base_buf\<rparr>) w2)
      else
        case fetch_delta_buf delta packfile path_packfile w of
          (Inl e, w1) \<Rightarrow> (Some e, v, w1)
        | (Inr delta_buf, w1) \<Rightarrow>
        case mv_base_buf v of
          None \<Rightarrow> (Some UNDEFINED_BEHAVIOUR, v, w1)
        | Some base_buf \<Rightarrow>
        case got_delta_apply_in_mem base_buf delta_buf of
          Inl e \<Rightarrow> (Some e, v\<lparr>mv_n := mv_n v + 1\<rparr>, w1)
        | Inr accum \<Rightarrow>
            dump_delta_chain_to_mem_loop rest n_entries max_size packfile path_packfile
              (if mv_n v + 1 < n_entries
               then \<lparr>mv_n = mv_n v + 1, mv_base_buf = Some accum, mv_accum_buf = base_buf,
                     mv_accum_size = Some (length accum)\<rparr>
               else \<lparr>mv_n = mv_n v + 1, mv_base_buf = Some base_buf, mv_accum_buf = accum,
                     mv_accum_size = Some (length accum)\<rparr>) w1)"

text \<open>\<^verbatim>\<open>dump_delta_chain_to_mem\<close>.  The result is the error and the final values of
  \<^verbatim>\<open>*outbuf\<close> and \<^verbatim>\<open>*outlen\<close>, which the function sets to \<^verbatim>\<open>NULL\<close> and 0 before anything
  else.  When the loop ends without error and without a delta applied, the function
  stores the buffer and the value of the uninitialised \<^verbatim>\<open>accum_size\<close>.\<close>

definition dump_delta_chain_to_mem ::
  "got_delta_chain \<Rightarrow> FILE \<Rightarrow> string \<Rightarrow> world
     \<Rightarrow> got_error option \<times> bytes option \<times> nat \<times> world" where
  "dump_delta_chain_to_mem deltas packfile path_packfile w =
     (if entries deltas = [] then (Some GOT_ERR_BAD_DELTA_CHAIN, None, 0, w)
      else
        case get_delta_chain_max_size deltas packfile w of
          (Inl e, w1) \<Rightarrow> (Some e, None, 0, w1)
        | (Inr max_size, w1) \<Rightarrow>
        case env_call w1 of (ok, w2) \<Rightarrow>
        if \<not> ok then (Some GOT_ERR_NO_MEM, None, 0, w2) else
        case dump_delta_chain_to_mem_loop (entries deltas) (nentries deltas) max_size packfile
               path_packfile
               \<lparr>mv_n = 0, mv_base_buf = None, mv_accum_buf = [], mv_accum_size = None\<rparr> w2 of
          (Some e, v, w3) \<Rightarrow> (Some e, None, 0, w3)
        | (None, v, w3) \<Rightarrow>
            (case mv_accum_size v of
               None \<Rightarrow> (Some UNDEFINED_BEHAVIOUR, Some (mv_accum_buf v), 0, w3)
             | Some accum_size \<Rightarrow> (None, Some (mv_accum_buf v), accum_size, w3)))"

text \<open>The local variables of \<^verbatim>\<open>dump_delta_chain_to_file\<close>, with the output file.  In
  memory mode the two buffers are in use and the two files are \<^verbatim>\<open>NULL\<close>; in file mode it
  is the other way round.  \<^verbatim>\<open>accum_size\<close> is \<open>None\<close> until a delta has been applied in
  memory.\<close>

record file_vars =
  fv_n :: nat
  fv_base_buf :: "bytes option"
  fv_accum_buf :: "bytes option"
  fv_accum_size :: "nat option"
  fv_base_file :: "FILE option"
  fv_accum_file :: "FILE option"
  fv_outfile :: FILE

text \<open>The loop \<^verbatim>\<open>SIMPLEQ_FOREACH\<close> of \<^verbatim>\<open>dump_delta_chain_to_file\<close>.\<close>

fun dump_delta_chain_to_file_loop ::
  "got_delta list \<Rightarrow> nat \<Rightarrow> nat \<Rightarrow> FILE \<Rightarrow> string \<Rightarrow> file_vars \<Rightarrow> world
     \<Rightarrow> got_error option \<times> file_vars \<times> world" where
  "dump_delta_chain_to_file_loop [] n_entries max_size packfile path_packfile v w = (None, v, w)"
| "dump_delta_chain_to_file_loop (delta # rest) n_entries max_size packfile path_packfile v w =
     (if fv_n v = 0 then
        (if \<not> is_plain_type (d_type delta) then (Some GOT_ERR_BAD_DELTA_CHAIN, v, w)
         else
           case fseeko packfile (d_offset delta + int (d_tslen delta)) w of
             (None, w1) \<Rightarrow> (Some GOT_ERR_ERRNO, v, w1)
           | (Some f1, w1) \<Rightarrow>
           (case fv_base_file v of
              Some base_file \<Rightarrow>
                (case got_inflate_to_file f1 base_file w1 of
                   (Inl e, w2) \<Rightarrow> (Some e, v, w2)
                 | (Inr (delta_len, base_file'), w2) \<Rightarrow>
                     dump_delta_chain_to_file_loop rest n_entries max_size packfile path_packfile
                       (v\<lparr>fv_n := 1, fv_base_file := Some (rewind base_file')\<rparr>) w2)
            | None \<Rightarrow>
                (case inflate_base_to_mem f1 max_size w1 of
                   (Inl e, w2) \<Rightarrow> (Some e, v, w2)
                 | (Inr base_buf, w2) \<Rightarrow>
                     dump_delta_chain_to_file_loop rest n_entries max_size packfile path_packfile
                       (v\<lparr>fv_n := 1, fv_base_buf := Some base_buf\<rparr>) w2)))
      else
        case fetch_delta_buf delta packfile path_packfile w of
          (Inl e, w1) \<Rightarrow> (Some e, v, w1)
        | (Inr delta_buf, w1) \<Rightarrow>
        (case fv_base_buf v of
           Some base_buf \<Rightarrow>
             (case got_delta_apply_in_mem base_buf delta_buf of
                Inl e \<Rightarrow> (Some e, v\<lparr>fv_n := fv_n v + 1\<rparr>, w1)
              | Inr accum \<Rightarrow>
                  dump_delta_chain_to_file_loop rest n_entries max_size packfile path_packfile
                    (if fv_n v + 1 < n_entries
                     then v\<lparr>fv_n := fv_n v + 1, fv_base_buf := Some accum,
                            fv_accum_buf := Some base_buf,
                            fv_accum_size := Some (length accum)\<rparr>
                     else v\<lparr>fv_n := fv_n v + 1, fv_accum_buf := Some accum,
                            fv_accum_size := Some (length accum)\<rparr>) w1)
         | None \<Rightarrow>
             (case (fv_base_file v, fv_accum_file v) of
                (Some base_file, Some accum_file) \<Rightarrow>
                  if fv_n v + 1 < n_entries then
                    (case got_delta_apply base_file delta_buf accum_file w1 of
                       (Inl e, w2) \<Rightarrow> (Some e, v\<lparr>fv_n := fv_n v + 1\<rparr>, w2)
                     | (Inr accum_file', w2) \<Rightarrow>
                         dump_delta_chain_to_file_loop rest n_entries max_size packfile
                           path_packfile
                           (v\<lparr>fv_n := fv_n v + 1, fv_base_file := Some (rewind accum_file'),
                              fv_accum_file := Some (rewind base_file)\<rparr>) w2)
                  else
                    (case got_delta_apply base_file delta_buf (fv_outfile v) w1 of
                       (Inl e, w2) \<Rightarrow> (Some e, v\<lparr>fv_n := fv_n v + 1\<rparr>, w2)
                     | (Inr outfile', w2) \<Rightarrow>
                         dump_delta_chain_to_file_loop rest n_entries max_size packfile
                           path_packfile (v\<lparr>fv_n := fv_n v + 1, fv_outfile := outfile'\<rparr>) w2)
              | _ \<Rightarrow> (Some UNDEFINED_BEHAVIOUR, v, w1))))"

text \<open>The label \<^verbatim>\<open>done\<close> of \<^verbatim>\<open>dump_delta_chain_to_file\<close>.  The result is the error and
  the output file.  In memory mode \<^verbatim>\<open>fwrite\<close> is called with \<^verbatim>\<open>accum_size\<close> whatever
  brought the function here, also when no delta has been applied and the variable holds no
  value.\<close>

definition dump_delta_chain_to_file_done ::
  "got_error option \<Rightarrow> file_vars \<Rightarrow> world \<Rightarrow> got_error option \<times> FILE \<times> world" where
  "dump_delta_chain_to_file_done err v w =
     (case (case fv_accum_buf v of
              None \<Rightarrow> Inr (True, fv_outfile v, w)
            | Some accum_buf \<Rightarrow>
                (case fv_accum_size v of
                   None \<Rightarrow> Inl UNDEFINED_BEHAVIOUR
                 | Some accum_size \<Rightarrow>
                     (case fwrite (take accum_size accum_buf) (fv_outfile v) w of
                        (None, w1) \<Rightarrow> Inr (False, fv_outfile v, w1)
                      | (Some outfile', w1) \<Rightarrow> Inr (True, outfile', w1))))
      of Inl e \<Rightarrow> (Some e, fv_outfile v, w)
       | Inr (written, outfile, w1) \<Rightarrow>
        if \<not> written then (Some (got_ferror outfile GOT_ERR_IO), outfile, w1)
        else
          let w2 = (case fv_base_file v of None \<Rightarrow> w1 | Some f \<Rightarrow> snd (fclose f w1));
              w3 = (case fv_accum_file v of None \<Rightarrow> w2 | Some f \<Rightarrow> snd (fclose f w2))
          in (err, rewind outfile, w3))"

text \<open>\<^verbatim>\<open>dump_delta_chain_to_file\<close>.\<close>

definition dump_delta_chain_to_file ::
  "got_delta_chain \<Rightarrow> FILE \<Rightarrow> FILE \<Rightarrow> string \<Rightarrow> world \<Rightarrow> got_error option \<times> FILE \<times> world" where
  "dump_delta_chain_to_file deltas outfile packfile path_packfile w =
     (if entries deltas = [] then (Some GOT_ERR_BAD_DELTA_CHAIN, outfile, w)
      else
        case get_delta_chain_max_size deltas packfile w of
          (Inl e, w1) \<Rightarrow> (Some e, outfile, w1)
        | (Inr max_size, w1) \<Rightarrow>
        case (if max_size < cached_max w1 then
                (case env_call w1 of (ok, w2) \<Rightarrow>
                   if \<not> ok then (Inl GOT_ERR_NO_MEM, w2)
                   else (Inr \<lparr>fv_n = 0, fv_base_buf = None, fv_accum_buf = Some [],
                              fv_accum_size = None, fv_base_file = None, fv_accum_file = None,
                              fv_outfile = outfile\<rparr>, w2))
              else
                (case got_opentemp w1 of
                   (None, w2) \<Rightarrow> (Inl GOT_ERR_ERRNO, w2)
                 | (Some base_file, w2) \<Rightarrow>
                     (case got_opentemp w2 of
                        (None, w3) \<Rightarrow> (Inl GOT_ERR_ERRNO, snd (fclose base_file w3))
                      | (Some accum_file, w3) \<Rightarrow>
                          (Inr \<lparr>fv_n = 0, fv_base_buf = None, fv_accum_buf = None,
                                fv_accum_size = None, fv_base_file = Some base_file,
                                fv_accum_file = Some accum_file, fv_outfile = outfile\<rparr>, w3))))
        of (Inl e, w4) \<Rightarrow> (Some e, outfile, w4)
         | (Inr v0, w4) \<Rightarrow>
        case dump_delta_chain_to_file_loop (entries deltas) (nentries deltas) max_size packfile
               path_packfile v0 w4 of
          (err, v, w5) \<Rightarrow> dump_delta_chain_to_file_done err v w5)"

subsection \<open>Extracting an object\<close>

text \<open>\<^verbatim>\<open>got_packfile_extract_object\<close>.  The first argument is the value the caller's
  \<^verbatim>\<open>*f\<close> has before the call; the result is the error, the value of \<^verbatim>\<open>*f\<close> after the call
  and the object, whose size the function sets when the object is not deltified.\<close>

definition got_packfile_extract_object ::
  "FILE option \<Rightarrow> got_object \<Rightarrow> world \<Rightarrow> got_error option \<times> FILE option \<times> got_object \<times> world" where
  "got_packfile_extract_object f0 obj w =
     (if o_flags obj AND GOT_OBJ_FLAG_PACKED = 0 then (Some GOT_ERR_OBJ_NOT_PACKED, f0, obj, w)
      else
        case got_opentemp w of
          (None, w1) \<Rightarrow> (Some GOT_ERR_FILE_OPEN, None, obj, w1)
        | (Some f, w1) \<Rightarrow>
        case fopen (o_path_packfile obj) w1 of
          (None, w2) \<Rightarrow> (Some GOT_ERR_ERRNO, Some f, obj, snd (fclose f w2))
        | (Some packfile, w2) \<Rightarrow>
        case (if o_flags obj AND GOT_OBJ_FLAG_DELTIFIED = 0 then
                (case fseeko packfile (o_pack_offset obj) w2 of
                   (None, w3) \<Rightarrow> (Some GOT_ERR_ERRNO, f, obj, w3)
                 | (Some packfile1, w3) \<Rightarrow>
                     (case got_inflate_to_file packfile1 f w3 of
                        (Inl e, w4) \<Rightarrow> (Some e, f, obj, w4)
                      | (Inr (len, f'), w4) \<Rightarrow> (None, f', obj\<lparr>o_size := len\<rparr>, w4)))
              else
                (case dump_delta_chain_to_file (o_deltas obj) f packfile (o_path_packfile obj) w2
                 of (err, f', w3) \<Rightarrow> (err, f', obj, w3)))
        of (err, f', obj', w5) \<Rightarrow>
          let w6 = snd (fclose packfile w5);
              w7 = (if err \<noteq> None then snd (fclose f' w6) else w6)
          in (err, Some f', obj', w7))"

text \<open>\<^verbatim>\<open>got_packfile_extract_object_to_mem\<close>.  The first two arguments are the values the
  caller's \<^verbatim>\<open>*buf\<close> and \<^verbatim>\<open>*len\<close> have before the call; the result is the error and their
  values after the call.\<close>

definition got_packfile_extract_object_to_mem ::
  "bytes option \<Rightarrow> nat \<Rightarrow> got_object \<Rightarrow> world
     \<Rightarrow> got_error option \<times> bytes option \<times> nat \<times> world" where
  "got_packfile_extract_object_to_mem buf0 len0 obj w =
     (if o_flags obj AND GOT_OBJ_FLAG_PACKED = 0 then (Some GOT_ERR_OBJ_NOT_PACKED, buf0, len0, w)
      else
        case fopen (o_path_packfile obj) w of
          (None, w1) \<Rightarrow> (Some GOT_ERR_ERRNO, buf0, len0, w1)
        | (Some packfile, w1) \<Rightarrow>
        case (if o_flags obj AND GOT_OBJ_FLAG_DELTIFIED = 0 then
                (case fseeko packfile (o_pack_offset obj) w1 of
                   (None, w2) \<Rightarrow> (Some GOT_ERR_ERRNO, buf0, len0, w2)
                 | (Some packfile1, w2) \<Rightarrow>
                     (case got_inflate_to_mem packfile1 w2 of
                        (Inl e, w3) \<Rightarrow> (Some e, None, 0, w3)
                      | (Inr b, w3) \<Rightarrow> (None, Some b, length b, w3)))
              else dump_delta_chain_to_mem (o_deltas obj) packfile (o_path_packfile obj) w1)
        of (err, buf, len, w4) \<Rightarrow> (err, buf, len, snd (fclose packfile w4)))"

subsection \<open>Devices for the proofs\<close>

text \<open>\<open>frame_eq w w1\<close>: the state \<open>w1\<close> differs from \<open>w\<close> at most in the outcomes still to
  come of the calls the host decides.\<close>

definition frame_eq :: "world \<Rightarrow> world \<Rightarrow> bool" where
  "frame_eq w w1 \<longleftrightarrow> w1 = w\<lparr>faults := faults w1\<rparr>"

text \<open>The part of \<^verbatim>\<open>cache_pack\<close> behind its three early returns, as a function of the
  path, the stream and the state it has reached there.\<close>

definition cache_pack_insert ::
  "got_packidx_v2_hdr \<Rightarrow> string \<Rightarrow> FILE \<Rightarrow> world \<Rightarrow> world" where
  "cache_pack_insert packidx path_packfile packfile w2 =
     (let i0 = pack_cache_first_free (pack_cache w2);
          full = (i0 = length (pack_cache w2));
          w3 = (if full
                then (case pc_packfile (last (pack_cache w2)) of
                        Some old \<Rightarrow> snd (fclose old w2)
                      | None \<Rightarrow> w2)\<lparr>pack_cache := memmove_up (pack_cache w2)\<rparr>
                else w2);
          i = (if full then 0 else i0)
      in case dup_packidx packidx w3 of
           (Some p, w4) \<Rightarrow>
             w4\<lparr>pack_cache := (pack_cache w4)
                  [i := \<lparr>pc_packidx = Some p, pc_packfile = Some packfile,
                         pc_path_packfile = Some path_packfile\<rparr>]\<rparr>
         | (None, w4) \<Rightarrow>
             (snd (fclose packfile w4))\<lparr>pack_cache := (pack_cache w4)
                  [i := (pack_cache w4 ! i)\<lparr>pc_packidx := None\<rparr>]\<rparr>)"

text \<open>\<open>calm n w\<close>: none of the next \<open>n\<close> calls that the host decides fails.
  \<open>pack_path packidx\<close> is the path that \<^verbatim>\<open>get_packfile_path\<close> makes for the pack of the
  index.  \<open>stored_pack packidx n bs\<close> is the slot of the pack cache that holds the pack of
  the index: the copy of the index that \<^verbatim>\<open>dup_packidx\<close> makes, the stream \<open>n\<close> of the pack
  file with the bytes \<open>bs\<close>, standing behind the twelve bytes of the header, and the
  path.\<close>

definition calm :: "nat \<Rightarrow> world \<Rightarrow> bool" where
  "calm n w \<longleftrightarrow> True \<notin> set (take n (faults w))"

definition pack_path :: "got_packidx_v2_hdr \<Rightarrow> string" where
  "pack_path packidx =
     path_objects_pack @ ''/'' @ ''pack-'' @ got_sha1_digest_to_str (packfile_sha1 packidx)
       @ ''.pack''"

definition stored_pack :: "got_packidx_v2_hdr \<Rightarrow> nat \<Rightarrow> bytes \<Rightarrow> pack_cache_entry" where
  "stored_pack packidx n bs =
     \<lparr>pc_packidx = Some (packidx\<lparr>large_offsets := None\<rparr>),
      pc_packfile = Some \<lparr>fd = n, fbytes = bs, fpos = 12\<rparr>,
      pc_path_packfile = Some (pack_path packidx)\<rparr>"

text \<open>\<open>host_eq w wa\<close>: the two states hold the same pack directory, the same inflation, the
  same threshold and the same delta cache; they may differ in the streams that are open
  and in the outcomes still to come of the calls the host decides.\<close>

definition host_eq :: "world \<Rightarrow> world \<Rightarrow> bool" where
  "host_eq w wa \<longleftrightarrow>
     inflate w = inflate wa \<and> delta_cache w = delta_cache wa \<and> cached_max w = cached_max wa
       \<and> packdir w = packdir wa"

text \<open>The variables of \<^verbatim>\<open>dump_delta_chain_to_mem\<close> and of \<^verbatim>\<open>dump_delta_chain_to_file\<close>
  side by side, at the head of the loop.  \<open>mem_mode\<close>: the second works in memory and has
  the values of the first.  \<open>file_mode ne rest\<close>: the second works with the two temporary
  files, both have done the base and as many deltas, and \<open>rest\<close> is what is left of a
  queue of \<open>ne\<close> entries; while it is not empty the base file starts with the bytes of
  the base buffer, the accumulation file stands at its start and the output file is
  empty; when it is empty the output file holds the result that the first has in its
  accumulation buffer.\<close>

definition mem_mode :: "mem_vars \<Rightarrow> file_vars \<Rightarrow> bool" where
  "mem_mode v va \<longleftrightarrow>
     fv_n va = mv_n v \<and> fv_base_buf va = mv_base_buf v \<and> fv_accum_buf va = Some (mv_accum_buf v)
     \<and> fv_accum_size va = mv_accum_size v \<and> fv_base_file va = None \<and> fv_accum_file va = None"

definition file_mode :: "nat \<Rightarrow> got_delta list \<Rightarrow> mem_vars \<Rightarrow> file_vars \<Rightarrow> bool" where
  "file_mode ne rest v va \<longleftrightarrow>
     fv_n va = mv_n v \<and> 0 < mv_n v \<and> mv_n v + length rest = ne
     \<and> fv_base_buf va = None \<and> fv_accum_buf va = None
     \<and> (\<exists>bf af. fv_base_file va = Some bf \<and> fv_accum_file va = Some af \<and> fpos af = 0
           \<and> (rest \<noteq> [] \<longrightarrow> (\<exists>b t. mv_base_buf v = Some b \<and> fbytes bf = b @ t)))
     \<and> (rest \<noteq> [] \<longrightarrow> fbytes (fv_outfile va) = [] \<and> fpos (fv_outfile va) = 0)
     \<and> (rest = [] \<longrightarrow>
           (\<exists>n. mv_accum_size v = Some n \<and> fbytes (fv_outfile va) = take n (mv_accum_buf v)))"

subsection \<open>Predicates for the statements about delta chains\<close>

text \<open>\<open>delta_entry_of d path off tslen ty sz\<close>: the entry \<open>d\<close> is the one \<^verbatim>\<open>add_delta\<close> makes
  for the object with this pack, offset, header length, type and size.\<close>

definition delta_entry_of :: "got_delta \<Rightarrow> string \<Rightarrow> int \<Rightarrow> nat \<Rightarrow> nat \<Rightarrow> nat \<Rightarrow> bool" where
  "delta_entry_of d path off tslen ty sz \<longleftrightarrow>
     d_path_packfile d = path \<and> d_offset d = off \<and> d_tslen d = tslen \<and> d_type d = ty
       \<and> d_size d = sz"

text \<open>\<open>ofs_base_offset f d\<close> is the base offset that the OFS delta of entry \<open>d\<close> encodes in
  the pack file of stream \<open>f\<close>: what \<^verbatim>\<open>parse_offset_delta\<close> reads behind the header of
  \<open>d\<close>.  \<open>ofs_linked f es\<close>: in the queue \<open>es\<close>, every entry but the first lies in the same
  pack as the entry before it and encodes that entry's offset as its base.\<close>

definition ofs_base_offset :: "FILE \<Rightarrow> got_delta \<Rightarrow> int option" where
  "ofs_base_offset f d =
     (case parse_offset_delta (f\<lparr>fpos := nat (d_offset d) + d_tslen d\<rparr>) (d_offset d) of
        Inl e \<Rightarrow> None
      | Inr (base_offset, f') \<Rightarrow> Some base_offset)"

fun ofs_linked :: "FILE \<Rightarrow> got_delta list \<Rightarrow> bool" where
  "ofs_linked f (x # y # es) \<longleftrightarrow>
     d_path_packfile x = d_path_packfile y \<and> ofs_base_offset f y = Some (d_offset x)
       \<and> ofs_linked f (y # es)"
| "ofs_linked f es \<longleftrightarrow> True"

text \<open>\<open>ofs_descends f off\<close> follows the bases from the object whose header stands at offset
  \<open>off\<close> of the pack file of \<open>f\<close>, the way \<^verbatim>\<open>resolve_offset_delta\<close> finds them: it holds when
  every OFS delta on the way names a base at a smaller offset and no REF delta is met.
  Nothing is asked of the other bytes of the file.  Where a header or a negative offset
  cannot be read the way ends, as the resolution does there.\<close>

function ofs_descends :: "FILE \<Rightarrow> int \<Rightarrow> bool" where
  "ofs_descends f off =
     (case parse_object_type_and_size (f\<lparr>fpos := nat off\<rparr>) of
        Inl e \<Rightarrow> True
      | Inr (ty, sz, tslen, f1) \<Rightarrow>
          if ty = GOT_OBJ_TYPE_REF_DELTA then False
          else if ty = GOT_OBJ_TYPE_OFFSET_DELTA then
            (case parse_offset_delta f1 off of
               Inl e \<Rightarrow> True
             | Inr (base_offset, f2) \<Rightarrow>
                 if 0 < base_offset \<and> base_offset < off then ofs_descends f base_offset
                 else False)
          else True)"
  by pat_completeness auto
termination
  by (relation "measure (\<lambda>(f, off). nat off)") auto

declare ofs_descends.simps [simp del]

text \<open>\<open>queue_append c deltas\<close> is the queue \<open>deltas\<close> with the entries of \<open>c\<close> in front of it.
  \<open>resolve_alone fuel\<close> resolves an object on its own: from the empty queue, whatever queue
  it is handed.  Given to \<^verbatim>\<open>resolve_offset_delta\<close> or \<^verbatim>\<open>resolve_ref_delta\<close> as the function
  they call for the base, it makes them return the chain of the base of the delta.\<close>

definition queue_append :: "got_delta_chain \<Rightarrow> got_delta_chain \<Rightarrow> got_delta_chain" where
  "queue_append c deltas =
     \<lparr>nentries = nentries c + nentries deltas, entries = entries c @ entries deltas\<rparr>"

definition resolve_alone :: "nat \<Rightarrow> resolver" where
  "resolve_alone fuel deltas = resolve_delta_chain fuel \<lparr>nentries = 0, entries = []\<rparr>"

text \<open>\<open>lift_queue deltas\<close> puts the queue \<open>deltas\<close> behind the chain of a result.\<close>

definition lift_queue :: "got_delta_chain \<Rightarrow> resolve_result \<Rightarrow> resolve_result" where
  "lift_queue deltas = map_option (\<lambda>(r, w). (map_sum id (\<lambda>c. queue_append c deltas) r, w))"

subsection \<open>Example repositories\<close>

text \<open>The examples run on a host whose digest maps every input to twenty zero bytes and
  whose compressed streams are a length byte followed by that many literal bytes.  A pack
  index is accepted when the digest of its bytes equals its trailer, whatever the digest
  function is, so an index with a zero trailer stands here for the same index with the
  SHA-1 trailer that fits it.\<close>

definition zero_digest :: "bytes \<Rightarrow> bytes" where
  "zero_digest bs = replicate 20 0"

definition stored_inflate :: "bytes \<Rightarrow> got_error + bytes" where
  "stored_inflate bs =
     (case bs of
        [] \<Rightarrow> Inl GOT_ERR_ZLIB
      | n # rest \<Rightarrow> if unat n \<le> length rest then Inr (take (unat n) rest) else Inl GOT_ERR_ZLIB)"

definition empty_delta_cache :: got_delta_cache where
  "empty_delta_cache =
     \<lparr>dc_path_packfile = None,
      dc_deltas = replicate GOT_DELTA_CACHE_NDELTAS
        \<lparr>dce_data_offset = 0, dce_delta_buf = None, dce_delta_len = 0\<rparr>\<rparr>"

definition host :: "(string \<times> bytes) list \<Rightarrow> world" where
  "host pd =
     \<lparr>packdir = pd, sha1 = zero_digest, inflate = stored_inflate, cached_max = 16,
      faults = [], next_fd = 3, open_fds = [],
      pack_cache = replicate GOT_PACK_CACHE_SIZE empty_pack_cache_entry,
      delta_cache = replicate GOT_DELTA_CACHE_SIZE empty_delta_cache\<rparr>"

definition id5 :: bytes where "id5 = 5 # replicate 19 0"
definition id9 :: bytes where "id9 = 9 # replicate 19 0"

definition zero_idx_name :: string where
  "zero_idx_name = ''pack-0000000000000000000000000000000000000000.idx''"
definition zero_pack_name :: string where
  "zero_pack_name = ''pack-0000000000000000000000000000000000000000.pack''"

text \<open>An index of one object whose id starts with byte 5, with a fanout table that is
  zero up to entry 254 and 1 at entry 255.\<close>

definition one_idx_file :: bytes where
  "one_idx_file = [0xff, 0x74, 0x4f, 0x63, 0, 0, 0, 2] @ replicate 1020 0 @ [0, 0, 0, 1]
     @ id5 @ [0, 0, 0, 0] @ [0, 0, 0, 12] @ replicate 40 0"

definition one_idx :: got_packidx_v2_hdr where
  "one_idx = \<lparr>magic = GOT_PACKIDX_V2_MAGIC, version = GOT_PACKIDX_VERSION,
     fanout_table = replicate 255 0 @ [1], sorted_ids = [id5],
     crc32 = [0], offsets = [12], large_offsets = None,
     packfile_sha1 = replicate 20 0, packidx_sha1 = replicate 20 0\<rparr>"

definition one_packdir :: "(string \<times> bytes) list" where
  "one_packdir = [(zero_idx_name, one_idx_file), (zero_pack_name, [])]"

text \<open>An index of two objects: entry 254 of the fanout table is 3 and entry 255 is 2, and
  the id that starts with 9 comes before the id that starts with 5.\<close>

definition two_idx_file :: bytes where
  "two_idx_file = [0xff, 0x74, 0x4f, 0x63, 0, 0, 0, 2] @ replicate 1016 0
     @ [0, 0, 0, 3, 0, 0, 0, 2]
     @ id9 @ id5 @ [0, 0, 0, 0, 0, 0, 0, 0] @ [0, 0, 0, 12, 0, 0, 0, 40] @ replicate 40 0"

definition two_idx :: got_packidx_v2_hdr where
  "two_idx = \<lparr>magic = GOT_PACKIDX_V2_MAGIC, version = GOT_PACKIDX_VERSION,
     fanout_table = replicate 254 0 @ [3, 2], sorted_ids = [id9, id5],
     crc32 = [0, 0], offsets = [12, 40], large_offsets = None,
     packfile_sha1 = replicate 20 0, packidx_sha1 = replicate 20 0\<rparr>"

definition two_packdir :: "(string \<times> bytes) list" where
  "two_packdir = [(zero_idx_name, two_idx_file), (zero_pack_name, [])]"

text \<open>An index of one object whose offset entry has the top bit set and the value 1, with
  a table of one large offset.\<close>

definition large_idx :: got_packidx_v2_hdr where
  "large_idx = \<lparr>magic = GOT_PACKIDX_V2_MAGIC, version = GOT_PACKIDX_VERSION,
     fanout_table = replicate 255 0 @ [1], sorted_ids = [id5],
     crc32 = [0], offsets = [0x80000001], large_offsets = Some [0x90000000],
     packfile_sha1 = replicate 20 0, packidx_sha1 = replicate 20 0\<rparr>"

text \<open>Three pack files without their twelve-byte header (nothing reads it here).
  \<open>loop_pack\<close> has at offset 1 an OFS delta whose negative offset is 0: its base is
  itself.  \<open>deep_pack\<close> has a blob at offset 1, an OFS delta on it at offset 2, and fifty
  more OFS deltas, each on the one before it; the last is at offset 102.
  \<open>short_pack\<close> is the start of \<open>deep_pack\<close>: the blob and two deltas.\<close>

definition loop_pack :: bytes where
  "loop_pack = [0, 0x60, 0]"


definition short_pack :: bytes where
  "short_pack = [0, 0x30, 0x60, 1, 0x60, 2]"

text \<open>A second index, of one object whose id starts with byte 9, for a pack with another
  digest; the twelve-byte header of a pack of one object; and two states of the pack
  cache: one with two packs cached, one with all four slots taken.\<close>

definition nine_idx :: got_packidx_v2_hdr where
  "nine_idx = \<lparr>magic = GOT_PACKIDX_V2_MAGIC, version = GOT_PACKIDX_VERSION,
     fanout_table = replicate 255 0 @ [1], sorted_ids = [id9],
     crc32 = [0], offsets = [12], large_offsets = None,
     packfile_sha1 = replicate 20 1, packidx_sha1 = replicate 20 0\<rparr>"

definition one_pack_hdr :: bytes where
  "one_pack_hdr = [0x50, 0x41, 0x43, 0x4b, 0, 0, 0, 2, 0, 0, 0, 1]"

definition cached :: "nat \<Rightarrow> got_packidx_v2_hdr \<Rightarrow> string \<Rightarrow> pack_cache_entry" where
  "cached n p path =
     \<lparr>pc_packidx = Some p, pc_packfile = Some \<lparr>fd = n, fbytes = one_pack_hdr, fpos = 12\<rparr>,
      pc_path_packfile = Some path\<rparr>"

definition cached_two :: world where
  "cached_two = (host [])\<lparr>next_fd := 5, open_fds := [4, 3],
     pack_cache := [cached 3 one_idx ''objects/pack/a.pack'',
                    cached 4 nine_idx ''objects/pack/b.pack'',
                    empty_pack_cache_entry, empty_pack_cache_entry]\<rparr>"

definition cached_full :: world where
  "cached_full = (host [(zero_pack_name, one_pack_hdr)])\<lparr>next_fd := 7, open_fds := [6, 5, 4, 3],
     pack_cache := [cached 3 nine_idx ''objects/pack/a.pack'',
                    cached 4 nine_idx ''objects/pack/b.pack'',
                    cached 5 nine_idx ''objects/pack/c.pack'',
                    cached 6 nine_idx ''objects/pack/d.pack'']\<rparr>"

text \<open>\<open>cached_two\<close> with the pack of \<open>one_idx\<close> in the directory.\<close>

definition cached_two_dir :: world where
  "cached_two_dir = cached_two\<lparr>packdir := [(zero_pack_name, one_pack_hdr)]\<rparr>"

text \<open>Two objects.  \<open>loose_obj\<close> has no flag set.  \<open>gone_obj\<close> is packed and deltified,
  with the chain of \<open>short_pack\<close>, in a pack file that is not in the directory.\<close>

definition short_chain :: got_delta_chain where
  "short_chain = \<lparr>nentries = 3, entries =
     [\<lparr>d_path_packfile = ''objects/pack/gone.pack'', d_offset = 1, d_tslen = 1, d_type = 3,
        d_size = 0, d_data_offset = 0\<rparr>,
      \<lparr>d_path_packfile = ''objects/pack/gone.pack'', d_offset = 2, d_tslen = 1, d_type = 6,
        d_size = 0, d_data_offset = 4\<rparr>,
      \<lparr>d_path_packfile = ''objects/pack/gone.pack'', d_offset = 4, d_tslen = 1, d_type = 6,
        d_size = 0, d_data_offset = 6\<rparr>]\<rparr>"

definition loose_obj :: got_object where
  "loose_obj = \<lparr>o_id = id5, o_type = 3, o_flags = 0, o_hdrlen = 0, o_size = 0,
     o_path_packfile = [], o_pack_offset = 0, o_deltas = \<lparr>nentries = 0, entries = []\<rparr>\<rparr>"

definition gone_obj :: got_object where
  "gone_obj = \<lparr>o_id = id5, o_type = 3, o_flags = GOT_OBJ_FLAG_PACKED OR GOT_OBJ_FLAG_DELTIFIED,
     o_hdrlen = 0, o_size = 0, o_path_packfile = ''objects/pack/gone.pack'', o_pack_offset = 5,
     o_deltas = short_chain\<rparr>"

text \<open>A pack file of three objects, with the streams of \<open>stored_inflate\<close>.  At offset 12
  stands a blob, \<open>abc\<close>; at offset 17 an OFS delta on it that copies its three bytes and
  inserts \<open>de\<close>; at offset 27 an OFS delta on that one that copies two bytes from offset 1
  of its base.  \<open>text_chain\<close> is the chain of the object at offset 27, as
  \<^verbatim>\<open>resolve_delta_chain\<close> returns it, and \<open>text_obj\<close> that object; it is \<open>bc\<close>.  With the
  threshold of \<open>host\<close> the chain is applied in memory, with threshold 0 through the
  temporary files.\<close>

definition text_pack :: bytes where
  "text_pack = [0x50, 0x41, 0x43, 0x4b, 0, 0, 0, 2, 0, 0, 0, 3]
     @ [0x33] @ [3, 0x61, 0x62, 0x63]
     @ [0x67, 5] @ [7, 3, 5, 0x90, 3, 2, 0x64, 0x65]
     @ [0x65, 10] @ [5, 5, 2, 0x91, 1, 2]"

definition text_chain :: got_delta_chain where
  "text_chain = \<lparr>nentries = 3, entries =
     [\<lparr>d_path_packfile = ''objects/pack/text.pack'', d_offset = 12, d_tslen = 1, d_type = 3,
        d_size = 3, d_data_offset = 0\<rparr>,
      \<lparr>d_path_packfile = ''objects/pack/text.pack'', d_offset = 17, d_tslen = 1, d_type = 6,
        d_size = 7, d_data_offset = 19\<rparr>,
      \<lparr>d_path_packfile = ''objects/pack/text.pack'', d_offset = 27, d_tslen = 1, d_type = 6,
        d_size = 5, d_data_offset = 29\<rparr>]\<rparr>"

definition text_obj :: got_object where
  "text_obj = \<lparr>o_id = id5, o_type = 3, o_flags = GOT_OBJ_FLAG_PACKED OR GOT_OBJ_FLAG_DELTIFIED,
     o_hdrlen = 1, o_size = 5, o_path_packfile = ''objects/pack/text.pack'', o_pack_offset = 27,
     o_deltas = text_chain\<rparr>"

definition text_host :: world where
  "text_host = host [(''text.pack'', text_pack)]"

definition text_host_files :: world where
  "text_host_files = text_host\<lparr>cached_max := 0\<rparr>"

text \<open>An index of \<open>text_pack\<close> with the ids of its three objects, and a state in which
  slot 0 of the pack cache holds that pack.  \<open>ref_pack\<close> is a pack of one object: at offset
  12 a REF delta on the object with the id \<open>id5\<close>, which the index has at offset 27.
  \<open>ref_chain\<close> is the chain of that REF delta: the blob of \<open>text_pack\<close>, its two OFS
  deltas, and the REF delta.\<close>

definition id1 :: bytes where "id1 = 1 # replicate 19 0"
definition id3 :: bytes where "id3 = 3 # replicate 19 0"

definition text_idx :: got_packidx_v2_hdr where
  "text_idx = \<lparr>magic = GOT_PACKIDX_V2_MAGIC, version = GOT_PACKIDX_VERSION,
     fanout_table = [0, 1, 1, 2, 2] @ replicate 251 3, sorted_ids = [id1, id3, id5],
     crc32 = [0, 0, 0], offsets = [12, 17, 27], large_offsets = None,
     packfile_sha1 = replicate 20 0, packidx_sha1 = replicate 20 0\<rparr>"

definition ref_pack :: bytes where
  "ref_pack = [0x50, 0x41, 0x43, 0x4b, 0, 0, 0, 2, 0, 0, 0, 1]
     @ [0x76] @ id5 @ [6, 2, 3, 0x90, 2, 1, 0x7a]"

definition ref_host :: world where
  "ref_host = (host [(zero_pack_name, text_pack)])\<lparr>next_fd := 4, open_fds := [3],
     pack_cache :=
       [\<lparr>pc_packidx = Some text_idx,
         pc_packfile = Some \<lparr>fd = 3, fbytes = text_pack, fpos = 12\<rparr>,
         pc_path_packfile =
           Some ''objects/pack/pack-0000000000000000000000000000000000000000.pack''\<rparr>,
        empty_pack_cache_entry, empty_pack_cache_entry, empty_pack_cache_entry]\<rparr>"

definition ref_chain :: got_delta_chain where
  "ref_chain = \<lparr>nentries = 4, entries =
     [\<lparr>d_path_packfile = ''objects/pack/pack-0000000000000000000000000000000000000000.pack'',
        d_offset = 12, d_tslen = 1, d_type = 3, d_size = 3, d_data_offset = 0\<rparr>,
      \<lparr>d_path_packfile = ''objects/pack/pack-0000000000000000000000000000000000000000.pack'',
        d_offset = 17, d_tslen = 1, d_type = 6, d_size = 7, d_data_offset = 19\<rparr>,
      \<lparr>d_path_packfile = ''objects/pack/pack-0000000000000000000000000000000000000000.pack'',
        d_offset = 27, d_tslen = 1, d_type = 6, d_size = 5, d_data_offset = 29\<rparr>,
      \<lparr>d_path_packfile = ''objects/pack/ref.pack'', d_offset = 12, d_tslen = 1, d_type = 7,
        d_size = 6, d_data_offset = 33\<rparr>]\<rparr>"

text \<open>A repository of five packs.  The first four have the same bytes: a blob \<open>abc\<close> at
  offset 12 and at offset 17 an OFS delta on it that inserts \<open>xdeyz\<close>; the stream of that
  delta starts at offset 19, where the stream of the first delta of \<open>text_pack\<close> starts
  too.  \<open>other_obj path\<close> is the object of that delta in the pack at \<open>path\<close>.
  \<open>four_extracted\<close> is the state of the repository after the object of each of the four
  packs has been extracted to memory, one after the other.\<close>

definition other_pack :: bytes where
  "other_pack = [0x50, 0x41, 0x43, 0x4b, 0, 0, 0, 2, 0, 0, 0, 2]
     @ [0x33] @ [3, 0x61, 0x62, 0x63]
     @ [0x68, 5] @ [8, 3, 5, 5, 0x78, 0x64, 0x65, 0x79, 0x7a]"

definition other_obj :: "string \<Rightarrow> got_object" where
  "other_obj path = \<lparr>o_id = id9, o_type = 3,
     o_flags = GOT_OBJ_FLAG_PACKED OR GOT_OBJ_FLAG_DELTIFIED,
     o_hdrlen = 1, o_size = 8, o_path_packfile = path, o_pack_offset = 17,
     o_deltas = \<lparr>nentries = 2, entries =
       [\<lparr>d_path_packfile = path, d_offset = 12, d_tslen = 1, d_type = 3, d_size = 3,
          d_data_offset = 0\<rparr>,
        \<lparr>d_path_packfile = path, d_offset = 17, d_tslen = 1, d_type = 6, d_size = 8,
          d_data_offset = 19\<rparr>]\<rparr>\<rparr>"

definition five_packs :: world where
  "five_packs = host [(''q.pack'', other_pack), (''r.pack'', other_pack),
     (''s.pack'', other_pack), (''t.pack'', other_pack), (''text.pack'', text_pack)]"

definition after_to_mem :: "got_object \<Rightarrow> world \<Rightarrow> world" where
  "after_to_mem obj w =
     (case got_packfile_extract_object_to_mem None 0 obj w of (err, buf, len, w') \<Rightarrow> w')"

definition four_extracted :: world where
  "four_extracted =
     after_to_mem (other_obj ''objects/pack/t.pack'')
       (after_to_mem (other_obj ''objects/pack/s.pack'')
         (after_to_mem (other_obj ''objects/pack/r.pack'')
           (after_to_mem (other_obj ''objects/pack/q.pack'') five_packs)))"

section \<open>Properties\<close>

subsection \<open>Streams\<close>

lemma fread_bytes_one:
  assumes "fpos f < length (fbytes f)"
  shows "fread_bytes 1 f = (Some [fbytes f ! fpos f], f\<lparr>fpos := fpos f + 1\<rparr>)"
  using assms by (simp add: fread_bytes_def take_Suc_conv_app_nth hd_drop_conv_nth Suc_le_eq)

lemma fread_bytes_eof:
  assumes "length (fbytes f) \<le> fpos f"
  shows "fread_bytes 1 f = (None, f\<lparr>fpos := max (fpos f) (length (fbytes f))\<rparr>)"
  using assms by (simp add: fread_bytes_def)

subsection \<open>The object header: errors\<close>

lemma parse_object_type_and_size_loop_no_space:
  "i \<le> 10 \<Longrightarrow>
   (\<forall>k < 10 - i. fpos f + k < length (fbytes f)
       \<and> fbytes f ! (fpos f + k) AND GOT_PACK_OBJ_SIZE_MORE \<noteq> 0) \<Longrightarrow>
   parse_object_type_and_size_loop f t s i = Inl GOT_ERR_NO_SPACE"
proof (induction "10 - i" arbitrary: f t s i)
  case 0
  then show ?case by (simp add: parse_object_type_and_size_loop.simps)
next
  case (Suc n)
  from Suc.hyps(2) have i: "i \<le> 9" by simp
  from Suc.prems(2) Suc.hyps(2)
  have a: "fpos f < length (fbytes f)"
    and b: "fbytes f ! fpos f AND GOT_PACK_OBJ_SIZE_MORE \<noteq> 0"
    by (metis add.right_neutral zero_less_Suc)+
  let ?f' = "f\<lparr>fpos := fpos f + 1\<rparr>"
  have "\<forall>k < 10 - (i + 1). fpos ?f' + k < length (fbytes ?f')
          \<and> fbytes ?f' ! (fpos ?f' + k) AND GOT_PACK_OBJ_SIZE_MORE \<noteq> 0"
  proof (intro allI impI)
    fix k assume "k < 10 - (i + 1)"
    then have "Suc k < 10 - i" by simp
    with Suc.prems(2)
    have "fpos f + Suc k < length (fbytes f)
            \<and> fbytes f ! (fpos f + Suc k) AND GOT_PACK_OBJ_SIZE_MORE \<noteq> 0"
      by blast
    then show "fpos ?f' + k < length (fbytes ?f')
            \<and> fbytes ?f' ! (fpos ?f' + k) AND GOT_PACK_OBJ_SIZE_MORE \<noteq> 0"
      by simp
  qed
  moreover have "n = 10 - (i + 1)" using Suc.hyps(2) by simp
  moreover have "i + 1 \<le> 10" using i by simp
  ultimately
  have IH: "\<And>t s. parse_object_type_and_size_loop ?f' t s (i + 1) = Inl GOT_ERR_NO_SPACE"
    using Suc.hyps(1) by blast
  show ?case
    using i b
    by (subst parse_object_type_and_size_loop.simps)
       (simp add: fread_bytes_one [OF a] IH Let_def del: One_nat_def)
qed

lemma parse_object_type_and_size_loop_truncated:
  "i + n < 10 \<Longrightarrow> length (fbytes f) \<le> fpos f + n \<Longrightarrow>
   (\<forall>k < n. fpos f + k < length (fbytes f)
       \<and> fbytes f ! (fpos f + k) AND GOT_PACK_OBJ_SIZE_MORE \<noteq> 0) \<Longrightarrow>
   parse_object_type_and_size_loop f t s i = Inl GOT_ERR_BAD_PACKIDX"
proof (induction n arbitrary: f t s i)
  case 0
  then have "length (fbytes f) \<le> fpos f" by simp
  from fread_bytes_eof [OF this] 0 show ?case
    by (subst parse_object_type_and_size_loop.simps) (simp add: got_ferror_def del: One_nat_def)
next
  case (Suc n)
  let ?f' = "f\<lparr>fpos := fpos f + 1\<rparr>"
  from Suc.prems(3)
  have a: "fpos f < length (fbytes f)"
    and b: "fbytes f ! fpos f AND GOT_PACK_OBJ_SIZE_MORE \<noteq> 0"
    by (metis add.right_neutral zero_less_Suc)+
  have "\<forall>k < n. fpos ?f' + k < length (fbytes ?f')
          \<and> fbytes ?f' ! (fpos ?f' + k) AND GOT_PACK_OBJ_SIZE_MORE \<noteq> 0"
  proof (intro allI impI)
    fix k assume "k < n"
    then have "Suc k < Suc n" by simp
    with Suc.prems(3)
    have "fpos f + Suc k < length (fbytes f)
            \<and> fbytes f ! (fpos f + Suc k) AND GOT_PACK_OBJ_SIZE_MORE \<noteq> 0"
      by blast
    then show "fpos ?f' + k < length (fbytes ?f')
            \<and> fbytes ?f' ! (fpos ?f' + k) AND GOT_PACK_OBJ_SIZE_MORE \<noteq> 0"
      by simp
  qed
  moreover have "(i + 1) + n < 10" using Suc.prems(1) by simp
  moreover have "length (fbytes ?f') \<le> fpos ?f' + n" using Suc.prems(2) by simp
  ultimately
  have IH: "\<And>t s. parse_object_type_and_size_loop ?f' t s (i + 1) = Inl GOT_ERR_BAD_PACKIDX"
    using Suc.IH by blast
  have "i \<le> 9" using Suc.prems(1) by simp
  then show ?case
    using b
    by (subst parse_object_type_and_size_loop.simps)
       (simp add: fread_bytes_one [OF a] IH Let_def del: One_nat_def)
qed

text \<open>
  C7, as the code has it.  Let the first \<open>n\<close> bytes at the position of the stream all be
  there and all carry the continuation flag.  When \<open>n\<close> is at least 10 (the size field is
  longer than ten bytes) the header is refused with \<open>GOT_ERR_NO_SPACE\<close>.  When \<open>n\<close> is less
  than 10 and the file ends after these bytes (the field is truncated) the header is
  refused with an error.
\<close>

theorem parse_object_type_and_size_refuses:
  assumes "\<forall>k < n. fpos f + k < length (fbytes f)
             \<and> fbytes f ! (fpos f + k) AND GOT_PACK_OBJ_SIZE_MORE \<noteq> 0"
  shows "(10 \<le> n \<longrightarrow> parse_object_type_and_size f = Inl GOT_ERR_NO_SPACE) \<and>
         (n < 10 \<and> length (fbytes f) \<le> fpos f + n \<longrightarrow> isl (parse_object_type_and_size f))"
proof (intro conjI impI)
  assume "10 \<le> n"
  with assms
  have "\<forall>k < 10 - 0. fpos f + k < length (fbytes f)
          \<and> fbytes f ! (fpos f + k) AND GOT_PACK_OBJ_SIZE_MORE \<noteq> 0"
    by simp
  then show "parse_object_type_and_size f = Inl GOT_ERR_NO_SPACE"
    unfolding parse_object_type_and_size_def
    by (intro parse_object_type_and_size_loop_no_space) simp_all
next
  assume "n < 10 \<and> length (fbytes f) \<le> fpos f + n"
  with assms have "parse_object_type_and_size f = Inl GOT_ERR_BAD_PACKIDX"
    unfolding parse_object_type_and_size_def
    by (intro parse_object_type_and_size_loop_truncated [where n = n]) simp_all
  then show "isl (parse_object_type_and_size f)" by simp
qed

theorem parse_object_type_and_size_refuses_witness:
  "parse_object_type_and_size \<lparr>fd = 3, fbytes = replicate 11 0x80, fpos = 0\<rparr>
     = Inl GOT_ERR_NO_SPACE \<and>
   isl (parse_object_type_and_size \<lparr>fd = 3, fbytes = [0x30, 0xb5, 0x80], fpos = 1\<rparr>)"
proof -
  have "\<forall>k < 10. fpos \<lparr>fd = 3, fbytes = replicate 11 (0x80 :: u8), fpos = 0\<rparr> + k
            < length (fbytes \<lparr>fd = 3, fbytes = replicate 11 (0x80 :: u8), fpos = 0\<rparr>)
          \<and> fbytes \<lparr>fd = 3, fbytes = replicate 11 (0x80 :: u8), fpos = 0\<rparr>
              ! (fpos \<lparr>fd = 3, fbytes = replicate 11 (0x80 :: u8), fpos = 0\<rparr> + k)
            AND GOT_PACK_OBJ_SIZE_MORE \<noteq> 0"
    by (simp add: GOT_PACK_OBJ_SIZE_MORE_def)
  from parse_object_type_and_size_refuses [OF this]
  have one: "parse_object_type_and_size \<lparr>fd = 3, fbytes = replicate 11 0x80, fpos = 0\<rparr>
     = Inl GOT_ERR_NO_SPACE"
    by simp
  have "\<forall>k < 2. fpos \<lparr>fd = 3, fbytes = [0x30, 0xb5, 0x80 :: u8], fpos = 1\<rparr> + k
            < length (fbytes \<lparr>fd = 3, fbytes = [0x30, 0xb5, 0x80 :: u8], fpos = 1\<rparr>)
          \<and> fbytes \<lparr>fd = 3, fbytes = [0x30, 0xb5, 0x80 :: u8], fpos = 1\<rparr>
              ! (fpos \<lparr>fd = 3, fbytes = [0x30, 0xb5, 0x80 :: u8], fpos = 1\<rparr> + k)
            AND GOT_PACK_OBJ_SIZE_MORE \<noteq> 0"
  proof (intro allI impI)
    fix k :: nat assume "k < 2"
    then consider "k = 0" | "k = 1" by linarith
    then show "fpos \<lparr>fd = 3, fbytes = [0x30, 0xb5, 0x80 :: u8], fpos = 1\<rparr> + k
            < length (fbytes \<lparr>fd = 3, fbytes = [0x30, 0xb5, 0x80 :: u8], fpos = 1\<rparr>)
          \<and> fbytes \<lparr>fd = 3, fbytes = [0x30, 0xb5, 0x80 :: u8], fpos = 1\<rparr>
              ! (fpos \<lparr>fd = 3, fbytes = [0x30, 0xb5, 0x80 :: u8], fpos = 1\<rparr> + k)
            AND GOT_PACK_OBJ_SIZE_MORE \<noteq> 0"
      by cases (simp_all add: GOT_PACK_OBJ_SIZE_MORE_def)
  qed
  from parse_object_type_and_size_refuses [OF this]
  have two: "isl (parse_object_type_and_size \<lparr>fd = 3, fbytes = [0x30, 0xb5, 0x80], fpos = 1\<rparr>)"
    by simp
  from one two show ?thesis by simp
qed

text \<open>
  C7 as stated fails: neither refusal has the kind \<open>GOT_ERR_BAD_PACKFILE\<close>.  Eleven
  continuation bytes give \<open>GOT_ERR_NO_SPACE\<close>, and a field cut off after one continuation
  byte gives \<open>GOT_ERR_BAD_PACKIDX\<close>.
\<close>

theorem parse_object_type_and_size_other_kinds:
  "parse_object_type_and_size \<lparr>fd = 3, fbytes = replicate 11 0x80, fpos = 0\<rparr>
     = Inl GOT_ERR_NO_SPACE \<and>
   parse_object_type_and_size \<lparr>fd = 3, fbytes = [0x80], fpos = 0\<rparr>
     = Inl GOT_ERR_BAD_PACKIDX"
  by code_simp

subsection \<open>Opening an index\<close>

lemma be32toh_zero: "be32toh (replicate n 0) = 0"
proof -
  have "foldl (\<lambda>acc b. push_bit 8 acc OR ucast b) (0::u32) (replicate n (0::u8)) = 0"
    by (induction n) simp_all
  then show ?thesis by (simp add: be32toh_def)
qed

lemma be32toh_4:
  "be32toh [a, b, c, d]
     = push_bit 24 (ucast a) OR push_bit 16 (ucast b) OR push_bit 8 (ucast c) OR ucast d"
  by (simp add: be32toh_def push_bit_or ac_simps)

lemma be32_array_zeros:
  assumes "length rest = 4 * r" "m + r = n"
  shows "be32_array n (replicate (4 * m) 0 @ rest) = replicate m 0 @ be32_array r rest"
  unfolding be32_array_def
proof (rule nth_equalityI)
  show "length (map (\<lambda>k. be32toh (take 4 (drop (4 * k) (replicate (4 * m) 0 @ rest)))) [0..<n])
      = length (replicate m 0 @ map (\<lambda>k. be32toh (take 4 (drop (4 * k) rest))) [0..<r])"
    using assms by simp
next
  fix i
  assume "i < length (map (\<lambda>k. be32toh (take 4 (drop (4 * k) (replicate (4 * m) 0 @ rest)))) [0..<n])"
  then have i: "i < n" by simp
  show "map (\<lambda>k. be32toh (take 4 (drop (4 * k) (replicate (4 * m) 0 @ rest)))) [0..<n] ! i
      = (replicate m 0 @ map (\<lambda>k. be32toh (take 4 (drop (4 * k) rest))) [0..<r]) ! i"
  proof (cases "i < m")
    case True
    then have "min (4 * m - 4 * i) 4 = 4" by simp
    then have "take 4 (drop (4 * i) (replicate (4 * m) (0::u8) @ rest)) = replicate 4 0"
      using True by (simp add: min.commute)
    then show ?thesis using True i by (simp add: nth_append be32toh_zero)
  next
    case False
    then have "4 * i - 4 * m = 4 * (i - m)" by simp
    moreover have "i - m < r" using False i assms by arith
    ultimately show ?thesis using False i assms by (simp add: nth_append)
  qed
qed

lemma verify_fanout_loop_None:
  "verify_fanout_loop ft i = None \<longleftrightarrow>
     (\<forall>k. i \<le> k \<and> k < 0xff - 1 \<longrightarrow> ft ! k \<le> ft ! (k + 1))"
proof (induction ft i rule: verify_fanout_loop.induct)
  case (1 ft i)
  show ?case
  proof (cases "i < 0xff - 1")
    case False
    then show ?thesis by (subst verify_fanout_loop.simps) auto
  next
    case True
    show ?thesis
    proof (cases "ft ! i > ft ! (i + 1)")
      case gt: True
      have "verify_fanout_loop ft i = Some GOT_ERR_BAD_PACKIDX"
        using True gt by (subst verify_fanout_loop.simps) simp
      moreover have "\<not> (\<forall>k. i \<le> k \<and> k < 0xff - 1 \<longrightarrow> ft ! k \<le> ft ! (k + 1))"
        using True gt by (metis leD order_refl)
      ultimately show ?thesis by simp
    next
      case le: False
      have "verify_fanout_loop ft i = verify_fanout_loop ft (i + 1)"
        using True le by (subst verify_fanout_loop.simps) simp
      moreover
      have "(\<forall>k. i \<le> k \<and> k < 0xff - 1 \<longrightarrow> ft ! k \<le> ft ! (k + 1))
         \<longleftrightarrow> (\<forall>k. i + 1 \<le> k \<and> k < 0xff - 1 \<longrightarrow> ft ! k \<le> ft ! (k + 1))"
        using le
        by (metis Suc_eq_plus1 Suc_leI le_neq_implies_less not_less_eq_eq
              order_less_imp_le not_le_imp_less)
      ultimately show ?thesis using 1 True le by simp
    qed
  qed
qed

lemma verify_fanout_table_None:
  "verify_fanout_table ft = None \<longleftrightarrow> (\<forall>k < 254. ft ! k \<le> ft ! (k + 1))"
  by (simp add: verify_fanout_table_def verify_fanout_loop_None)

lemma packidx_read_tables_Inr:
  assumes "packidx_read_tables f psize ctx ft w = (Inr p, w')"
  shows "fanout_table p = ft \<and> length (sorted_ids p) = unat (ft ! 0xff)
     \<and> length (offsets p) = unat (ft ! 0xff)
     \<and> (\<forall>lo. large_offsets p = Some lo \<longrightarrow> length lo = unat (ft ! 0xff))"
  using assms unfolding packidx_read_tables_def Let_def
  by (auto split: prod.splits if_splits sum.splits option.splits)

lemma packidx_read_hdr_Inr:
  assumes "packidx_read_hdr f psize w = (Inr p, w')"
  shows "verify_fanout_table (fanout_table p) = None \<and> length (fanout_table p) = 256
     \<and> length (sorted_ids p) = unat (fanout_table p ! 0xff)
     \<and> length (offsets p) = unat (fanout_table p ! 0xff)
     \<and> (\<forall>lo. large_offsets p = Some lo \<longrightarrow> length lo = unat (fanout_table p ! 0xff))"
  using assms unfolding packidx_read_hdr_def Let_def
  by (auto simp: be32_array_def split: prod.splits if_splits sum.splits option.splits
           dest!: packidx_read_tables_Inr)

lemma got_packidx_open_Inr:
  assumes "got_packidx_open path w = (Inr p, w')"
  shows "verify_fanout_table (fanout_table p) = None \<and> length (fanout_table p) = 256
     \<and> length (sorted_ids p) = unat (fanout_table p ! 0xff)
     \<and> length (offsets p) = unat (fanout_table p ! 0xff)
     \<and> (\<forall>lo. large_offsets p = Some lo \<longrightarrow> length lo = unat (fanout_table p ! 0xff))"
  using assms unfolding got_packidx_open_def
  by (auto split: prod.splits if_splits sum.splits option.splits dest!: packidx_read_hdr_Inr)

lemma upt_0_2: "[0..<2] = [0, 1]"
  by (simp add: numeral_2_eq_2)

lemma env_call_no_faults: "faults w = [] \<Longrightarrow> env_call w = (True, w)"
  by (simp add: env_call_def)

lemma open_one_idx:
  assumes "packdir w = one_packdir" "faults w = []" "sha1 w = zero_digest"
  shows "got_packidx_open ''objects/pack/pack-0000000000000000000000000000000000000000.idx'' w
     = (Inr one_idx,
        w\<lparr>next_fd := Suc (next_fd w), open_fds := removeAll (next_fd w) (open_fds w)\<rparr>)"
proof -
  define w1 where "w1 = w\<lparr>next_fd := Suc (next_fd w), open_fds := next_fd w # open_fds w\<rparr>"
  have w1: "packdir w1 = one_packdir" "faults w1 = []" "sha1 w1 = zero_digest"
    using assms by (simp_all add: w1_def)
  have fo: "fopen ''objects/pack/pack-0000000000000000000000000000000000000000.idx'' w
      = (Some \<lparr>fd = next_fd w, fbytes = one_idx_file, fpos = 0\<rparr>, w1)"
    using assms
    by (simp add: fopen_def lookup_path_def path_objects_pack_def one_packdir_def
          zero_idx_name_def zero_pack_name_def w1_def env_call_no_faults)
  have sz: "get_packfile_size ''objects/pack/pack-0000000000000000000000000000000000000000.idx'' w1 = (Inr 0, w1)"
    using w1
    by (simp add: get_packfile_size_def PATH_MAX_def cut_at_last_dot_def env_call_def
          lookup_path_def path_objects_pack_def one_packdir_def zero_idx_name_def
          zero_pack_name_def)
  have ec: "env_call w1 = (True, w1)" using w1 by (simp add: env_call_def)
  have ft: "be32_array 256 (replicate 1020 0 @ [0, 0, 0, 1]) = replicate 255 0 @ [1]"
    using be32_array_zeros [of "[0, 0, 0, 1]" 1 255 256] by (simp add: be32toh_4 be32_array_def)
  have vf: "verify_fanout_table (replicate 255 0 @ [1]) = None"
    by (simp add: verify_fanout_table_None nth_append)
  have tb: "packidx_read_tables \<lparr>fd = next_fd w, fbytes = one_idx_file, fpos = 1032\<rparr> 0
       ([0xff, 0x74, 0x4f, 0x63] @ [0, 0, 0, 2] @ (replicate 1020 0 @ [0, 0, 0, 1]))
       (replicate 255 0 @ [1]) w1 = (Inr one_idx, w1)"
    using w1 ec
    by (simp add: packidx_read_tables_def nth_append fread_items_def fread_bytes_def
          one_idx_file_def id5_def SHA1_DIGEST_LENGTH_def zero_digest_def one_idx_def
          be32toh_4 got_ferror_def)
  have hd: "packidx_read_hdr \<lparr>fd = next_fd w, fbytes = one_idx_file, fpos = 0\<rparr> 0 w1
      = (Inr one_idx, w1)"
    using tb
    by (simp add: packidx_read_hdr_def fread_bytes_def one_idx_file_def id5_def be32toh_4 ft vf
          GOT_PACKIDX_V2_MAGIC_def GOT_PACKIDX_VERSION_def)
  show ?thesis
    by (simp add: got_packidx_open_def fo sz ec hd fclose_def) (simp add: w1_def)
qed

lemma open_two_idx:
  assumes "packdir w = two_packdir" "faults w = []" "sha1 w = zero_digest"
  shows "got_packidx_open ''objects/pack/pack-0000000000000000000000000000000000000000.idx'' w
     = (Inr two_idx,
        w\<lparr>next_fd := Suc (next_fd w), open_fds := removeAll (next_fd w) (open_fds w)\<rparr>)"
proof -
  define w1 where "w1 = w\<lparr>next_fd := Suc (next_fd w), open_fds := next_fd w # open_fds w\<rparr>"
  have w1: "packdir w1 = two_packdir" "faults w1 = []" "sha1 w1 = zero_digest"
    using assms by (simp_all add: w1_def)
  have fo: "fopen ''objects/pack/pack-0000000000000000000000000000000000000000.idx'' w
      = (Some \<lparr>fd = next_fd w, fbytes = two_idx_file, fpos = 0\<rparr>, w1)"
    using assms
    by (simp add: fopen_def lookup_path_def path_objects_pack_def two_packdir_def
          zero_idx_name_def zero_pack_name_def w1_def env_call_no_faults)
  have sz: "get_packfile_size ''objects/pack/pack-0000000000000000000000000000000000000000.idx'' w1 = (Inr 0, w1)"
    using w1
    by (simp add: get_packfile_size_def PATH_MAX_def cut_at_last_dot_def env_call_def
          lookup_path_def path_objects_pack_def two_packdir_def zero_idx_name_def
          zero_pack_name_def)
  have ec: "env_call w1 = (True, w1)" using w1 by (simp add: env_call_def)
  have ft: "be32_array 256 (replicate 1016 0 @ [0, 0, 0, 3, 0, 0, 0, 2])
      = replicate 254 0 @ [3, 2]"
    using be32_array_zeros [of "[0, 0, 0, 3, 0, 0, 0, 2]" 2 254 256]
    by (simp add: be32toh_4 be32_array_def upt_0_2)
  have vf: "verify_fanout_table (replicate 254 0 @ [3, 2]) = None"
    by (simp add: verify_fanout_table_None nth_append)
  have tb: "packidx_read_tables \<lparr>fd = next_fd w, fbytes = two_idx_file, fpos = 1032\<rparr> 0
       ([0xff, 0x74, 0x4f, 0x63] @ [0, 0, 0, 2] @ (replicate 1016 0 @ [0, 0, 0, 3, 0, 0, 0, 2]))
       (replicate 254 0 @ [3, 2]) w1 = (Inr two_idx, w1)"
    using w1 ec
    by (simp add: packidx_read_tables_def nth_append fread_items_def fread_bytes_def
          two_idx_file_def id5_def id9_def SHA1_DIGEST_LENGTH_def zero_digest_def two_idx_def
          be32toh_4 got_ferror_def upt_0_2)
  have hd: "packidx_read_hdr \<lparr>fd = next_fd w, fbytes = two_idx_file, fpos = 0\<rparr> 0 w1
      = (Inr two_idx, w1)"
    using tb
    by (simp add: packidx_read_hdr_def fread_bytes_def two_idx_file_def id5_def id9_def
          be32toh_4 ft vf GOT_PACKIDX_V2_MAGIC_def GOT_PACKIDX_VERSION_def)
  show ?thesis
    by (simp add: got_packidx_open_def fo sz ec hd fclose_def) (simp add: w1_def)
qed

lemma host_simps:
  "packdir (host pd) = pd" "faults (host pd) = []" "sha1 (host pd) = zero_digest"
  "next_fd (host pd) = 3" "open_fds (host pd) = []"
  by (simp_all add: host_def)



text \<open>
  C2, as the code has it.  An index that \<^verbatim>\<open>got_packidx_open\<close> returns has a fanout table of
  256 entries whose entries 0 to 254 do not decrease, and as many ids as entry 255 says.
  The order of the ids is not looked at.
\<close>

theorem got_packidx_open_checks_fanout:
  assumes "got_packidx_open path w = (Inr p, w')"
  shows "length (fanout_table p) = 256
     \<and> (\<forall>i < 254. fanout_table p ! i \<le> fanout_table p ! (i + 1))
     \<and> length (sorted_ids p) = unat (fanout_table p ! 0xff)"
  using got_packidx_open_Inr [OF assms] by (simp add: verify_fanout_table_None)

theorem got_packidx_open_checks_fanout_witness:
  "got_packidx_open ''objects/pack/pack-0000000000000000000000000000000000000000.idx''
       (host one_packdir)
     = (Inr one_idx, (host one_packdir)\<lparr>next_fd := 4, open_fds := []\<rparr>)
   \<and> length (fanout_table one_idx) = 256
   \<and> fanout_table one_idx ! 253 \<le> fanout_table one_idx ! 254
   \<and> length (sorted_ids one_idx) = unat (fanout_table one_idx ! 0xff)"
proof -
  have op: "got_packidx_open ''objects/pack/pack-0000000000000000000000000000000000000000.idx''
       (host one_packdir)
     = (Inr one_idx, (host one_packdir)\<lparr>next_fd := 4, open_fds := []\<rparr>)"
    by (simp add: open_one_idx host_simps)
  from got_packidx_open_checks_fanout [OF op]
  have a: "length (fanout_table one_idx) = 256"
    and b: "\<forall>i < 254. fanout_table one_idx ! i \<le> fanout_table one_idx ! (i + 1)"
    and c: "length (sorted_ids one_idx) = unat (fanout_table one_idx ! 0xff)"
    by simp_all
  from b [rule_format, of 253] have "fanout_table one_idx ! 253 \<le> fanout_table one_idx ! 254"
    by simp
  with op a c show ?thesis by simp
qed

text \<open>
  C2 as stated fails.  The index file of \<open>two_packdir\<close> is accepted, and the index it
  gives has entry 254 of the fanout table above entry 255; its first id starts with
  byte 9 and its second id with byte 5, so the ids descend.
\<close>

theorem got_packidx_open_accepts_unordered:
  "fst (got_packidx_open ''objects/pack/pack-0000000000000000000000000000000000000000.idx''
          (host two_packdir)) = Inr two_idx
   \<and> fanout_table two_idx ! 255 < fanout_table two_idx ! 254
   \<and> sorted_ids two_idx ! 0 = 9 # replicate 19 0
   \<and> sorted_ids two_idx ! 1 = 5 # replicate 19 0"
  by (simp add: open_two_idx host_simps)
     (simp add: two_idx_def nth_append id5_def id9_def)

subsection \<open>Looking an id up\<close>

lemma get_object_idx_loop_Some:
  "get_object_idx_loop p oid tot i = Some j \<longleftrightarrow>
     i \<le> j \<and> j < tot \<and> sorted_ids p ! j = oid
       \<and> (\<forall>k. i \<le> k \<and> k < j \<longrightarrow> sorted_ids p ! k \<noteq> oid)"
proof (induction p oid tot i rule: get_object_idx_loop.induct)
  case (1 p oid tot i)
  show ?case
  proof (cases "i < tot")
    case False
    then show ?thesis by (subst get_object_idx_loop.simps) auto
  next
    case True
    show ?thesis
    proof (cases "oid = sorted_ids p ! i")
      case eq: True
      have "get_object_idx_loop p oid tot i = Some i"
        using True eq by (subst get_object_idx_loop.simps) simp
      moreover
      have "(i \<le> j \<and> j < tot \<and> sorted_ids p ! j = oid
               \<and> (\<forall>k. i \<le> k \<and> k < j \<longrightarrow> sorted_ids p ! k \<noteq> oid)) \<longleftrightarrow> j = i"
        using True eq by auto
      ultimately show ?thesis by auto
    next
      case ne: False
      have "get_object_idx_loop p oid tot i = get_object_idx_loop p oid tot (i + 1)"
        using True ne by (subst get_object_idx_loop.simps) simp
      moreover
      have "(i \<le> j \<and> j < tot \<and> sorted_ids p ! j = oid
               \<and> (\<forall>k. i \<le> k \<and> k < j \<longrightarrow> sorted_ids p ! k \<noteq> oid))
          \<longleftrightarrow> (i + 1 \<le> j \<and> j < tot \<and> sorted_ids p ! j = oid
               \<and> (\<forall>k. i + 1 \<le> k \<and> k < j \<longrightarrow> sorted_ids p ! k \<noteq> oid))"
        using ne by (auto simp: Suc_le_eq) (metis le_neq_implies_less)+
      ultimately show ?thesis using 1 True ne by simp
    qed
  qed
qed

lemma get_object_idx_loop_None:
  "get_object_idx_loop p oid tot i = None \<longleftrightarrow>
     (\<forall>k. i \<le> k \<and> k < tot \<longrightarrow> sorted_ids p ! k \<noteq> oid)"
proof
  assume none: "get_object_idx_loop p oid tot i = None"
  show "\<forall>k. i \<le> k \<and> k < tot \<longrightarrow> sorted_ids p ! k \<noteq> oid"
  proof (intro allI impI notI)
    fix k assume k: "i \<le> k \<and> k < tot" and eq: "sorted_ids p ! k = oid"
    define j where "j = (LEAST m. i \<le> m \<and> sorted_ids p ! m = oid)"
    have ex: "i \<le> k \<and> sorted_ids p ! k = oid" using k eq by simp
    have j1: "i \<le> j \<and> sorted_ids p ! j = oid"
      unfolding j_def by (rule LeastI [of "\<lambda>m. i \<le> m \<and> sorted_ids p ! m = oid", OF ex])
    have j2: "j \<le> k"
      unfolding j_def by (rule Least_le [of "\<lambda>m. i \<le> m \<and> sorted_ids p ! m = oid", OF ex])
    have j3: "\<forall>m. i \<le> m \<and> m < j \<longrightarrow> sorted_ids p ! m \<noteq> oid"
      unfolding j_def using not_less_Least by blast
    from j1 j2 j3 k have "get_object_idx_loop p oid tot i = Some j"
      by (simp add: get_object_idx_loop_Some)
    with none show False by simp
  qed
next
  assume all: "\<forall>k. i \<le> k \<and> k < tot \<longrightarrow> sorted_ids p ! k \<noteq> oid"
  show "get_object_idx_loop p oid tot i = None"
  proof (cases "get_object_idx_loop p oid tot i")
    case None
    then show ?thesis .
  next
    case (Some j)
    with all show ?thesis by (auto simp: get_object_idx_loop_Some)
  qed
qed

text \<open>
  C3, as the code has it.  For an index with as many ids as entry 255 of its fanout table
  says, \<^verbatim>\<open>get_object_idx\<close> scans from the start of the bucket of the id's first byte to
  the end of the table, not to the end of the bucket: it returns the first index from
  there on that holds the id, and nothing when no entry from there on holds it.
\<close>

theorem get_object_idx_scans_to_end:
  assumes "length (sorted_ids p) = unat (fanout_table p ! 0xff)"
  shows "let b = unat (hd oid);
             start = (if 0 < b then unat (fanout_table p ! (b - 1)) else 0)
         in (get_object_idx p oid = Some j \<longleftrightarrow>
               start \<le> j \<and> j < length (sorted_ids p) \<and> sorted_ids p ! j = oid
                 \<and> (\<forall>k. start \<le> k \<and> k < j \<longrightarrow> sorted_ids p ! k \<noteq> oid))
          \<and> (get_object_idx p oid = None \<longleftrightarrow>
               (\<forall>k. start \<le> k \<and> k < length (sorted_ids p) \<longrightarrow> sorted_ids p ! k \<noteq> oid))"
proof -
  have "(0 < hd oid) = (0 < unat (hd oid))" by (simp add: word_less_nat_alt)
  then show ?thesis
    using assms
    by (simp add: get_object_idx_def Let_def get_object_idx_loop_Some get_object_idx_loop_None)
qed

lemma one_idx_lookup: "get_object_idx one_idx id5 = Some 0"
  by code_simp

theorem get_object_idx_scans_to_end_witness:
  "get_object_idx one_idx id5 = Some 0 \<and> sorted_ids one_idx ! 0 = id5"
proof -
  have len: "length (sorted_ids one_idx) = unat (fanout_table one_idx ! 0xff)"
    by (simp add: one_idx_def nth_append)
  from get_object_idx_scans_to_end [OF len, of id5 0] one_idx_lookup
  show ?thesis by (simp add: Let_def)
qed

text \<open>
  C3 as stated fails.  The index file of \<open>one_packdir\<close> is accepted.  In the index it
  gives, the bucket of first byte 5 runs from entry 4 to entry 5 of the fanout table, both
  0, so it is empty; the lookup of \<open>id5\<close> still returns index 0.
\<close>

theorem get_object_idx_leaves_bucket:
  "fst (got_packidx_open ''objects/pack/pack-0000000000000000000000000000000000000000.idx''
          (host one_packdir)) = Inr one_idx
   \<and> hd id5 = 5
   \<and> fanout_table one_idx ! 4 = 0 \<and> fanout_table one_idx ! 5 = 0
   \<and> get_object_idx one_idx id5 = Some 0"
  by (simp add: open_one_idx host_simps one_idx_lookup)
     (simp add: one_idx_def nth_append id5_def)

subsection \<open>Offsets in an index\<close>

text \<open>
  C8 names a defect of the code.  The guard of \<^verbatim>\<open>get_object_offset\<close> is
  \<^verbatim>\<open>idx > totobj\<close>, and the table of large offsets has \<^verbatim>\<open>totobj\<close> entries, so the value
  \<^verbatim>\<open>totobj\<close> passes the guard and the function reads one element past the end of the table.
  Here the index has one object and one large offset, and the offset entry 0 asks for
  large offset 1.
\<close>

theorem get_object_offset_reads_past_end:
  "get_object_offset large_idx 0 = OffsetOutOfBounds 1"
  by code_simp

text \<open>The guard lets no other value through: with a table of \<^verbatim>\<open>totobj\<close> large offsets the
  only read beyond the table is the read of element \<^verbatim>\<open>totobj\<close>.\<close>

lemma get_object_offset_out_of_bounds_only_at_totobj:
  assumes "large_offsets p = Some lo" and "length lo = unat (fanout_table p ! 0xff)"
    and "get_object_offset p i = OffsetOutOfBounds k"
  shows "k = unat (fanout_table p ! 0xff)"
  using assms
  by (auto simp: get_object_offset_def Let_def word_le_nat_alt word_less_nat_alt
           split: if_splits)

subsection \<open>The pack cache\<close>

lemma frame_eq_refl [simp]: "frame_eq w w"
  by (simp add: frame_eq_def)

lemma frame_eq_trans: "frame_eq w w1 \<Longrightarrow> frame_eq w1 w2 \<Longrightarrow> frame_eq w w2"
  unfolding frame_eq_def by (metis world.surjective world.update_convs(5))

lemma frame_eq_fields:
  assumes "frame_eq w w1"
  shows "pack_cache w1 = pack_cache w" "open_fds w1 = open_fds w" "packdir w1 = packdir w"
    "next_fd w1 = next_fd w" "delta_cache w1 = delta_cache w" "sha1 w1 = sha1 w"
    "inflate w1 = inflate w" "cached_max w1 = cached_max w"
  using assms unfolding frame_eq_def
  by (metis world.select_convs world.surjective world.update_convs(5))+

lemma env_call_frame: "env_call w = (ok, w1) \<Longrightarrow> frame_eq w w1"
  by (auto simp: env_call_def frame_eq_def split: list.splits)

lemma dup_packidx_frame:
  assumes "dup_packidx p w = (r, w1)"
  shows "frame_eq w w1" "r = None \<or> r = Some (p\<lparr>large_offsets := None\<rparr>)"
proof -
  obtain ok1 v1 where e1: "env_call w = (ok1, v1)" by fastforce
  obtain ok2 v2 where e2: "env_call v1 = (ok2, v2)" by fastforce
  obtain ok3 v3 where e3: "env_call v2 = (ok3, v3)" by fastforce
  obtain ok4 v4 where e4: "env_call v3 = (ok4, v4)" by fastforce
  note t1 = env_call_frame [OF e1]
  note t2 = frame_eq_trans [OF t1 env_call_frame [OF e2]]
  note t3 = frame_eq_trans [OF t2 env_call_frame [OF e3]]
  note t4 = frame_eq_trans [OF t3 env_call_frame [OF e4]]
  from assms e1 e2 e3 e4 t1 t2 t3 t4 show "frame_eq w w1"
    by (auto simp: dup_packidx_def split: if_splits)
  from assms e1 e2 e3 e4 show "r = None \<or> r = Some (p\<lparr>large_offsets := None\<rparr>)"
    by (auto simp: dup_packidx_def split: if_splits)
qed

lemma get_packfile_path_frame:
  assumes "get_packfile_path p w = (r, w1)"
  shows "frame_eq w w1"
proof -
  obtain ok1 v1 where e1: "env_call w = (ok1, v1)" by fastforce
  obtain ok2 v2 where e2: "env_call v1 = (ok2, v2)" by fastforce
  note t1 = env_call_frame [OF e1]
  note t2 = frame_eq_trans [OF t1 env_call_frame [OF e2]]
  from assms e1 e2 t1 t2 show ?thesis
    by (auto simp: get_packfile_path_def split: if_splits)
qed

lemma fopen_frame:
  assumes "fopen path w = (r, w1)"
  shows "pack_cache w1 = pack_cache w" "packdir w1 = packdir w" "delta_cache w1 = delta_cache w"
    "sha1 w1 = sha1 w" "inflate w1 = inflate w" "cached_max w1 = cached_max w"
    "r = None \<Longrightarrow> frame_eq w w1" "\<And>f. r = Some f \<Longrightarrow> open_fds w1 = fd f # open_fds w"
proof -
  obtain ok v where e: "env_call w = (ok, v)" by fastforce
  note t = frame_eq_fields [OF env_call_frame [OF e]]
  from assms e have c: "w1 = w \<or> w1 = v
      \<or> w1 = v\<lparr>next_fd := Suc (next_fd v), open_fds := next_fd v # open_fds v\<rparr>"
    by (auto simp: fopen_def split: option.splits if_splits)
  with t show "pack_cache w1 = pack_cache w" "packdir w1 = packdir w"
    "delta_cache w1 = delta_cache w" "sha1 w1 = sha1 w" "inflate w1 = inflate w"
    "cached_max w1 = cached_max w"
    by auto
  show "frame_eq w w1" if "r = None"
    using assms e that env_call_frame [OF e]
    by (auto simp: fopen_def split: option.splits if_splits)
  show "open_fds w1 = fd f # open_fds w" if "r = Some f" for f
    using assms e that t by (auto simp: fopen_def split: option.splits if_splits)
qed

lemma fclose_frame:
  assumes "fclose f w = (ok, w1)"
  shows "pack_cache w1 = pack_cache w" "packdir w1 = packdir w" "delta_cache w1 = delta_cache w"
    "sha1 w1 = sha1 w" "inflate w1 = inflate w" "cached_max w1 = cached_max w"
    "next_fd w1 = next_fd w"
    "open_fds w1 = removeAll (fd f) (open_fds w)"
proof -
  obtain ok1 v1 where e1: "env_call w = (ok1, v1)" by fastforce
  note t = frame_eq_fields [OF env_call_frame [OF e1]]
  from assms e1 have w1: "w1 = v1\<lparr>open_fds := removeAll (fd f) (open_fds v1)\<rparr>"
    by (simp add: fclose_def)
  show "pack_cache w1 = pack_cache w" "packdir w1 = packdir w" "delta_cache w1 = delta_cache w"
    "sha1 w1 = sha1 w" "inflate w1 = inflate w" "cached_max w1 = cached_max w"
    "next_fd w1 = next_fd w"
    "open_fds w1 = removeAll (fd f) (open_fds w)"
    by (simp_all add: w1 t)
qed

lemma snd_fclose [simp]:
  "pack_cache (snd (fclose f w)) = pack_cache w"
  "open_fds (snd (fclose f w)) = removeAll (fd f) (open_fds w)"
  "packdir (snd (fclose f w)) = packdir w"
  "delta_cache (snd (fclose f w)) = delta_cache w"
  using fclose_frame [of f w "fst (fclose f w)" "snd (fclose f w)"] by simp_all

lemma length_memmove_up [simp]: "length (memmove_up a) = length a"
  by (cases a) (simp_all add: memmove_up_def)

lemma tl_memmove_up: "tl (memmove_up a) = butlast a"
  by (cases a) (simp_all add: memmove_up_def)

lemma tl_list_update_0: "tl (xs[0 := x]) = tl xs"
  by (cases xs) simp_all

lemma hd_list_update_0: "xs \<noteq> [] \<Longrightarrow> hd (xs[0 := x]) = x"
  by (cases xs) simp_all

lemma search_packidx_hit:
  assumes "search_pack_cache (pack_cache w) oid = Some (p, idx)"
  shows "pack_cache (snd (search_packidx oid w)) = pack_cache w"
proof -
  obtain r w1 where d: "dup_packidx p w = (r, w1)" by fastforce
  from frame_eq_fields(1) [OF dup_packidx_frame(1) [OF d]] assms d show ?thesis
    by (cases r) (simp_all add: search_packidx_def)
qed

lemma cache_pack_cases:
  obtains (early) e w1 where "cache_pack packidx w = (Some e, w1)" "pack_cache w1 = pack_cache w"
  | (insert) path f w2 where "cache_pack packidx w = (None, cache_pack_insert packidx path f w2)"
      "pack_cache w2 = pack_cache w"
proof -
  obtain r1 w1 where g: "get_packfile_path packidx w = (r1, w1)" by fastforce
  note f1 = frame_eq_fields [OF get_packfile_path_frame [OF g]]
  show thesis
  proof (cases r1)
    case (Inl e)
    with g f1 early show ?thesis by (simp add: cache_pack_def)
  next
    case (Inr path)
    obtain r2 w2 where fo: "fopen path w1 = (r2, w2)" by fastforce
    note f2 = fopen_frame [OF fo]
    show ?thesis
    proof (cases r2)
      case None
      with g Inr fo f1 f2 early show ?thesis by (simp add: cache_pack_def)
    next
      case (Some f0)
      obtain r3 pf where rh: "read_packfile_hdr f0 packidx = (r3, pf)" by fastforce
      show ?thesis
      proof (cases r3)
        case (Some e)
        with g Inr fo \<open>r2 = Some f0\<close> rh f1 f2 early [of e "snd (fclose pf w2)"] show ?thesis
          by (simp add: cache_pack_def)
      next
        case None
        have "cache_pack packidx w = (None, cache_pack_insert packidx path pf w2)"
          using g Inr fo \<open>r2 = Some f0\<close> rh None
          by (simp add: cache_pack_def cache_pack_insert_def Let_def split: prod.splits option.splits)
        with insert f1 f2 show ?thesis by simp
      qed
    qed
  qed
qed

lemma cache_pack_insert_length:
  "length (pack_cache (cache_pack_insert packidx path f w2)) = length (pack_cache w2)"
proof -
  define w3 where "w3 = (if pack_cache_first_free (pack_cache w2) = length (pack_cache w2)
                then (case pc_packfile (last (pack_cache w2)) of
                        Some old \<Rightarrow> snd (fclose old w2)
                      | None \<Rightarrow> w2)\<lparr>pack_cache := memmove_up (pack_cache w2)\<rparr>
                else w2)"
  have l3: "length (pack_cache w3) = length (pack_cache w2)" by (simp add: w3_def)
  obtain r4 w4 where d: "dup_packidx packidx w3 = (r4, w4)" by fastforce
  from frame_eq_fields(1) [OF dup_packidx_frame(1) [OF d]] l3 d show ?thesis
    by (cases r4) (simp_all add: cache_pack_insert_def Let_def w3_def [symmetric])
qed

lemma cache_pack_length:
  "length (pack_cache (snd (cache_pack packidx w))) = length (pack_cache w)"
  by (rule cache_pack_cases [of packidx w]) (simp_all add: cache_pack_insert_length)

lemma cache_pack_insert_full:
  assumes full: "pack_cache_first_free (pack_cache w2) = length (pack_cache w2)"
    and ne: "pack_cache w2 \<noteq> []"
  shows "tl (pack_cache (cache_pack_insert packidx path f w2)) = butlast (pack_cache w2)"
    and "pc_packfile (last (pack_cache w2)) = Some old \<Longrightarrow>
           fd old \<notin> set (open_fds (cache_pack_insert packidx path f w2))"
    and "hd (pack_cache (cache_pack_insert packidx path f w2))
           = \<lparr>pc_packidx = Some (packidx\<lparr>large_offsets := None\<rparr>), pc_packfile = Some f,
               pc_path_packfile = Some path\<rparr>
         \<or> pc_packidx (hd (pack_cache (cache_pack_insert packidx path f w2))) = None"
proof -
  define w3 where "w3 = (case pc_packfile (last (pack_cache w2)) of
                        Some old \<Rightarrow> snd (fclose old w2)
                      | None \<Rightarrow> w2)\<lparr>pack_cache := memmove_up (pack_cache w2)\<rparr>"
  have c3: "pack_cache w3 = memmove_up (pack_cache w2)" by (simp add: w3_def)
  obtain r4 w4 where d: "dup_packidx packidx w3 = (r4, w4)" by fastforce
  note f4 = frame_eq_fields [OF dup_packidx_frame(1) [OF d]]
  note r4 = dup_packidx_frame(2) [OF d]
  have ne4: "pack_cache w4 \<noteq> []" using f4(1) c3 ne by (metis length_memmove_up length_0_conv)
  have res: "cache_pack_insert packidx path f w2 =
     (case r4 of
        Some p \<Rightarrow> w4\<lparr>pack_cache := (pack_cache w4)
                  [0 := \<lparr>pc_packidx = Some p, pc_packfile = Some f,
                         pc_path_packfile = Some path\<rparr>]\<rparr>
      | None \<Rightarrow> (snd (fclose f w4))\<lparr>pack_cache := (pack_cache w4)
                  [0 := (pack_cache w4 ! 0)\<lparr>pc_packidx := None\<rparr>]\<rparr>)"
    using full d by (simp add: cache_pack_insert_def Let_def w3_def [symmetric] split: option.splits)
  show "tl (pack_cache (cache_pack_insert packidx path f w2)) = butlast (pack_cache w2)"
    using f4(1) c3 by (cases r4) (simp_all add: res tl_list_update_0 tl_memmove_up)
  show "hd (pack_cache (cache_pack_insert packidx path f w2))
           = \<lparr>pc_packidx = Some (packidx\<lparr>large_offsets := None\<rparr>), pc_packfile = Some f,
               pc_path_packfile = Some path\<rparr>
         \<or> pc_packidx (hd (pack_cache (cache_pack_insert packidx path f w2))) = None"
    using r4 ne4 by (cases r4) (auto simp: res hd_list_update_0)
  show "fd old \<notin> set (open_fds (cache_pack_insert packidx path f w2))"
    if "pc_packfile (last (pack_cache w2)) = Some old"
  proof -
    have "open_fds w3 = removeAll (fd old) (open_fds w2)" using that by (simp add: w3_def)
    with f4(2) have "fd old \<notin> set (open_fds w4)" by simp
    then show ?thesis by (cases r4) (simp_all add: res)
  qed
qed

lemma get_packfile_size_frame:
  assumes "get_packfile_size path w = (r, w1)"
  shows "frame_eq w w1"
proof -
  obtain ok1 v1 where e1: "env_call w = (ok1, v1)" by fastforce
  note t1 = env_call_frame [OF e1]
  from assms e1 t1 show ?thesis
    by (auto simp: get_packfile_size_def split: if_splits option.splits)
qed

lemma packidx_read_tables_frame:
  assumes "packidx_read_tables f ps ctx ft w = (r, w1)"
  shows "frame_eq w w1"
proof -
  obtain ok1 v1 where e1: "env_call w = (ok1, v1)" by fastforce
  obtain ok2 v2 where e2: "env_call v1 = (ok2, v2)" by fastforce
  obtain ok3 v3 where e3: "env_call v2 = (ok3, v3)" by fastforce
  obtain ok4 v4 where e4: "env_call v3 = (ok4, v4)" by fastforce
  note t1 = env_call_frame [OF e1]
  note t2 = frame_eq_trans [OF t1 env_call_frame [OF e2]]
  note t3 = frame_eq_trans [OF t2 env_call_frame [OF e3]]
  note t4 = frame_eq_trans [OF t3 env_call_frame [OF e4]]
  from assms e1 e2 e3 e4 t1 t2 t3 t4 show ?thesis
    unfolding packidx_read_tables_def Let_def
    by (auto split: if_splits prod.splits option.splits)
qed

lemma packidx_read_hdr_frame:
  assumes "packidx_read_hdr f ps w = (r, w1)"
  shows "frame_eq w w1"
  using assms unfolding packidx_read_hdr_def Let_def
  by (auto split: if_splits prod.splits option.splits dest: packidx_read_tables_frame)

lemma got_packidx_open_cache:
  "pack_cache (snd (got_packidx_open path w)) = pack_cache w"
proof -
  obtain r1 w1 where fo: "fopen path w = (r1, w1)" by fastforce
  note f1 = fopen_frame [OF fo]
  show ?thesis
  proof (cases r1)
    case None
    with fo f1 show ?thesis by (simp add: got_packidx_open_def)
  next
    case (Some f)
    obtain r2 w2 where sz: "get_packfile_size path w1 = (r2, w2)" by fastforce
    note f2 = frame_eq_fields [OF get_packfile_size_frame [OF sz]]
    show ?thesis
    proof (cases r2)
      case (Inl e)
      with fo Some sz f1 f2 show ?thesis by (simp add: got_packidx_open_def)
    next
      case (Inr ps)
      obtain ok w3 where ec: "env_call w2 = (ok, w3)" by fastforce
      note f3 = frame_eq_fields [OF env_call_frame [OF ec]]
      obtain r4 w4 where rh: "packidx_read_hdr f ps w3 = (r4, w4)" by fastforce
      note f4 = frame_eq_fields [OF packidx_read_hdr_frame [OF rh]]
      from fo Some sz Inr ec rh f1 f2 f3 f4 show ?thesis
        by (simp add: got_packidx_open_def)
    qed
  qed
qed

lemma search_packdir_length:
  "length (pack_cache (snd (search_packdir dents oid w))) = length (pack_cache w)"
proof (induction dents arbitrary: w)
  case Nil
  show ?case by simp
next
  case (Cons d dents)
  show ?case
  proof (cases "is_packidx_filename d")
    case False
    with Cons show ?thesis by simp
  next
    case True
    obtain ok w1 where ec: "env_call w = (ok, w1)" by fastforce
    note f1 = frame_eq_fields [OF env_call_frame [OF ec]]
    obtain r2 w2 where op: "got_packidx_open (path_objects_pack @ ''/'' @ d) w1 = (r2, w2)"
      by fastforce
    from got_packidx_open_cache [of "path_objects_pack @ ''/'' @ d" w1] op
    have f2: "pack_cache w2 = pack_cache w1" by simp
    show ?thesis
    proof (cases ok)
      case False
      with True ec f1 show ?thesis by simp
    next
      case ok: True
      show ?thesis
      proof (cases r2)
        case (Inl e)
        with True ec ok op f1 f2 show ?thesis by simp
      next
        case (Inr p)
        show ?thesis
        proof (cases "get_object_idx p oid")
          case None
          with True ec ok op Inr f1 f2 Cons.IH [of w2] show ?thesis by simp
        next
          case (Some idx)
          with True ec ok op Inr f1 f2 cache_pack_length [of p w2] show ?thesis by simp
        qed
      qed
    qed
  qed
qed

lemma search_packidx_length:
  "length (pack_cache (snd (search_packidx oid w))) = length (pack_cache w)"
proof (cases "search_pack_cache (pack_cache w) oid")
  case (Some a)
  obtain p idx where a: "a = (p, idx)" by (cases a)
  from search_packidx_hit [OF Some [unfolded a]] show ?thesis by simp
next
  case None
  obtain ok1 w1 where e1: "env_call w = (ok1, w1)" by fastforce
  obtain ok2 w2 where e2: "env_call w1 = (ok2, w2)" by fastforce
  obtain r w3 where sd: "search_packdir (map fst (packdir w2)) oid w2 = (r, w3)" by fastforce
  obtain ok3 w4 where e3: "env_call w3 = (ok3, w4)" by fastforce
  note f1 = frame_eq_fields [OF env_call_frame [OF e1]]
  note f2 = frame_eq_fields [OF env_call_frame [OF e2]]
  note f4 = frame_eq_fields [OF env_call_frame [OF e3]]
  from search_packdir_length [of "map fst (packdir w2)" oid w2] sd
  have f3: "length (pack_cache w3) = length (pack_cache w2)" by simp
  from None e1 e2 sd e3 f1(1) f2(1) f3 f4(1) show ?thesis
    by (simp add: search_packidx_def)
qed

text \<open>The calls of the host that \<^verbatim>\<open>dup_packidx\<close> and \<^verbatim>\<open>cache_pack\<close> make, and what the
  insertion stores.\<close>

lemma env_call_faults:
  assumes "env_call w = (ok, w1)"
  shows "faults w1 = drop 1 (faults w)" "ok \<longleftrightarrow> calm 1 w"
  using assms by (auto simp: env_call_def calm_def split: list.splits)

lemma calm_mono: "calm m w \<Longrightarrow> n \<le> m \<Longrightarrow> calm n w"
  unfolding calm_def using set_take_subset_set_take [of n m "faults w"] by auto

lemma calm_drop:
  assumes "calm (k + n) w" and "faults w1 = drop k (faults w)"
  shows "calm n w1"
proof -
  have "take n (drop k (faults w)) = drop k (take (k + n) (faults w))"
    by (simp add: drop_take)
  then have "set (take n (faults w1)) \<subseteq> set (take (k + n) (faults w))"
    using assms(2) set_drop_subset [of k "take (k + n) (faults w)"] by simp
  with assms(1) show ?thesis by (auto simp: calm_def)
qed

lemma env_call_calm:
  assumes "env_call w = (ok, w1)" and "calm (Suc n) w"
  shows "ok" "calm n w1"
proof -
  from calm_mono [OF assms(2), of 1] env_call_faults(2) [OF assms(1)] show ok by simp
  from calm_drop [of 1 n w w1] assms(2) env_call_faults(1) [OF assms(1)] show "calm n w1"
    by simp
qed

lemma dup_packidx_calm:
  assumes "calm 4 w"
  shows "fst (dup_packidx p w) = Some (p\<lparr>large_offsets := None\<rparr>)"
proof -
  obtain ok1 v1 where e1: "env_call w = (ok1, v1)" by fastforce
  obtain ok2 v2 where e2: "env_call v1 = (ok2, v2)" by fastforce
  obtain ok3 v3 where e3: "env_call v2 = (ok3, v3)" by fastforce
  obtain ok4 v4 where e4: "env_call v3 = (ok4, v4)" by fastforce
  from assms have c4: "calm (Suc (Suc (Suc (Suc 0)))) w" by (simp add: eval_nat_numeral)
  note a1 = env_call_calm [OF e1 c4]
  note a2 = env_call_calm [OF e2 a1(2)]
  note a3 = env_call_calm [OF e3 a2(2)]
  note a4 = env_call_calm [OF e4 a3(2)]
  from e1 e2 e3 e4 a1(1) a2(1) a3(1) a4(1) show ?thesis by (simp add: dup_packidx_def)
qed

lemma calm_faults: "faults w1 = faults w \<Longrightarrow> calm n w1 = calm n w"
  by (simp add: calm_def)

lemma dup_packidx_result:
  "fst (dup_packidx p w) = (if calm 4 w then Some (p\<lparr>large_offsets := None\<rparr>) else None)"
proof (cases "calm 4 w")
  case True
  with dup_packidx_calm [OF True, of p] show ?thesis by simp
next
  case False
  obtain ok1 v1 where e1: "env_call w = (ok1, v1)" by fastforce
  obtain ok2 v2 where e2: "env_call v1 = (ok2, v2)" by fastforce
  obtain ok3 v3 where e3: "env_call v2 = (ok3, v3)" by fastforce
  obtain ok4 v4 where e4: "env_call v3 = (ok4, v4)" by fastforce
  note f1 = env_call_faults [OF e1] and f2 = env_call_faults [OF e2]
    and f3 = env_call_faults [OF e3] and f4 = env_call_faults [OF e4]
  have "\<not> (ok1 \<and> ok2 \<and> ok3 \<and> ok4)"
  proof
    assume a: "ok1 \<and> ok2 \<and> ok3 \<and> ok4"
    with f1 f2 f3 f4 have "calm 1 w" "calm 1 v1" "calm 1 v2" "calm 1 v3" by simp_all
    with f1(1) f2(1) f3(1) have "calm 4 w"
      by (cases "faults w"; cases "tl (faults w)"; cases "tl (tl (faults w))";
          cases "tl (tl (tl (faults w)))") (auto simp: calm_def eval_nat_numeral)
    with False show False by simp
  qed
  with e1 e2 e3 e4 have "fst (dup_packidx p w) = None"
    by (auto simp: dup_packidx_def)
  with False show ?thesis by simp
qed

lemma read_packfile_hdr_None:
  assumes "read_packfile_hdr f0 packidx = (None, pf)"
  shows "pf = f0\<lparr>fpos := fpos f0 + 12\<rparr>"
  using assms
  by (auto simp: read_packfile_hdr_def Let_def fread_bytes_def
           split: prod.splits option.splits if_splits)

lemma cache_pack_cases2:
  obtains (early) e w1 where "cache_pack packidx w = (Some e, w1)"
  | (insert) bs w2 where
      "cache_pack packidx w
         = (None, cache_pack_insert packidx (pack_path packidx)
                    \<lparr>fd = next_fd w, fbytes = bs, fpos = 12\<rparr> w2)"
      "pack_cache w2 = pack_cache w" "lookup_path w (pack_path packidx) = Some bs"
      "faults w2 = drop 3 (faults w)"
proof -
  obtain ok1 v1 where e1: "env_call w = (ok1, v1)" by fastforce
  obtain ok2 v2 where e2: "env_call v1 = (ok2, v2)" by fastforce
  note t1 = frame_eq_fields [OF env_call_frame [OF e1]]
  note t2 = frame_eq_fields [OF env_call_frame [OF e2]]
  show thesis
  proof (cases "ok1 \<and> ok2")
    case False
    with e1 e2 have "\<exists>e w1. cache_pack packidx w = (Some e, w1)"
      by (auto simp: cache_pack_def get_packfile_path_def split: if_splits)
    with early show ?thesis by blast
  next
    case True
    with e1 e2 have g: "get_packfile_path packidx w = (Inr (pack_path packidx), v2)"
      by (simp add: get_packfile_path_def pack_path_def)
    have lp: "lookup_path v2 (pack_path packidx) = lookup_path w (pack_path packidx)"
      by (simp add: lookup_path_def t1 t2)
    show ?thesis
    proof (cases "lookup_path w (pack_path packidx)")
      case None
      with g lp early show ?thesis by (simp add: cache_pack_def fopen_def)
    next
      case (Some bs)
      obtain ok3 v3 where e3: "env_call v2 = (ok3, v3)" by fastforce
      note t3 = frame_eq_fields [OF env_call_frame [OF e3]]
      show ?thesis
      proof (cases ok3)
        case False
        with g lp Some e3 early show ?thesis by (simp add: cache_pack_def fopen_def)
      next
        case True
        let ?f0 = "\<lparr>fd = next_fd w, fbytes = bs, fpos = 0\<rparr>"
        let ?w2 = "v3\<lparr>next_fd := Suc (next_fd v3), open_fds := next_fd v3 # open_fds v3\<rparr>"
        from g lp Some e3 True t1 t2 t3
        have fo: "fopen (pack_path packidx) v2 = (Some ?f0, ?w2)" by (simp add: fopen_def)
        obtain r3 pf where rh: "read_packfile_hdr ?f0 packidx = (r3, pf)" by fastforce
        show ?thesis
        proof (cases r3)
          case (Some e)
          with g fo rh early show ?thesis by (simp add: cache_pack_def)
        next
          case None
          from read_packfile_hdr_None [OF rh [unfolded None]]
          have pf: "pf = \<lparr>fd = next_fd w, fbytes = bs, fpos = 12\<rparr>" by simp
          have c: "cache_pack packidx w
              = (None, cache_pack_insert packidx (pack_path packidx) pf ?w2)"
            using g fo rh None
            by (simp add: cache_pack_def cache_pack_insert_def Let_def
                     split: prod.splits option.splits)
          have f: "faults ?w2 = drop 3 (faults w)"
            using env_call_faults(1) [OF e1] env_call_faults(1) [OF e2]
              env_call_faults(1) [OF e3] by (simp add: eval_nat_numeral)
          from insert [of bs ?w2] c pf t1 t2 t3 \<open>lookup_path w (pack_path packidx) = Some bs\<close> f
          show ?thesis by simp
        qed
      qed
    qed
  qed
qed

lemma fclose_faults: "faults (snd (fclose f w)) = drop 1 (faults w)"
proof -
  obtain ok v where e: "env_call w = (ok, v)" by fastforce
  with env_call_faults(1) [OF e] show ?thesis by (simp add: fclose_def)
qed

lemma pack_cache_first_free_None:
  assumes "pack_cache_first_free cache < length cache"
  shows "pc_packidx (cache ! pack_cache_first_free cache) = None"
  using nth_length_takeWhile [of "\<lambda>e. pc_packidx e \<noteq> None" cache] assms
  by (simp add: pack_cache_first_free_def)

lemma search_packidx_hit_exact:
  assumes "search_pack_cache (pack_cache w) oid = Some (p, idx)"
  shows "fst (search_packidx oid w)
           = (if calm 4 w then Inr (p\<lparr>large_offsets := None\<rparr>, idx) else Inl GOT_ERR_NO_MEM)"
proof -
  obtain r w1 where d: "dup_packidx p w = (r, w1)" by fastforce
  with dup_packidx_result [of p w] have "r = (if calm 4 w then Some (p\<lparr>large_offsets := None\<rparr>) else None)"
    by simp
  with assms d show ?thesis by (simp add: search_packidx_def)
qed

lemma cache_pack_insert_full_exact:
  assumes full: "pack_cache_first_free (pack_cache w2) = length (pack_cache w2)"
    and ne: "pack_cache w2 \<noteq> []"
  shows "if calm 4 (w2\<lparr>faults := drop (if pc_packfile (last (pack_cache w2)) = None then 0 else 1)
                                   (faults w2)\<rparr>)
         then hd (pack_cache (cache_pack_insert packidx path f w2))
                = \<lparr>pc_packidx = Some (packidx\<lparr>large_offsets := None\<rparr>), pc_packfile = Some f,
                    pc_path_packfile = Some path\<rparr>
         else pc_packidx (hd (pack_cache (cache_pack_insert packidx path f w2))) = None"
proof -
  define w3 where "w3 = (case pc_packfile (last (pack_cache w2)) of
                        Some old \<Rightarrow> snd (fclose old w2)
                      | None \<Rightarrow> w2)\<lparr>pack_cache := memmove_up (pack_cache w2)\<rparr>"
  define wk where "wk = w2\<lparr>faults := drop (if pc_packfile (last (pack_cache w2)) = None then 0 else 1)
                                   (faults w2)\<rparr>"
  have c3: "pack_cache w3 = memmove_up (pack_cache w2)" by (simp add: w3_def)
  have "faults w3 = faults wk"
    by (simp add: w3_def wk_def fclose_faults split: option.splits)
  then have calm3: "calm 4 w3 = calm 4 wk" by (rule calm_faults)
  obtain r4 w4 where d: "dup_packidx packidx w3 = (r4, w4)" by fastforce
  with dup_packidx_result [of packidx w3] calm3
  have r4: "r4 = (if calm 4 wk then Some (packidx\<lparr>large_offsets := None\<rparr>) else None)" by simp
  note f4 = frame_eq_fields [OF dup_packidx_frame(1) [OF d]]
  have ne4: "pack_cache w4 \<noteq> []" using f4(1) c3 ne by (metis length_memmove_up length_0_conv)
  show ?thesis
  proof (cases "calm 4 wk")
    case True
    with r4 have "cache_pack_insert packidx path f w2 =
       w4\<lparr>pack_cache := (pack_cache w4)
                  [0 := \<lparr>pc_packidx = Some (packidx\<lparr>large_offsets := None\<rparr>),
                         pc_packfile = Some f, pc_path_packfile = Some path\<rparr>]\<rparr>"
      using full d by (simp add: cache_pack_insert_def Let_def w3_def [symmetric])
    with ne4 True show ?thesis by (simp add: hd_list_update_0 wk_def)
  next
    case False
    with r4 have "cache_pack_insert packidx path f w2 =
       (snd (fclose f w4))\<lparr>pack_cache := (pack_cache w4)
                  [0 := (pack_cache w4 ! 0)\<lparr>pc_packidx := None\<rparr>]\<rparr>"
      using full d by (simp add: cache_pack_insert_def Let_def w3_def [symmetric])
    with ne4 False show ?thesis by (simp add: hd_list_update_0 wk_def)
  qed
qed

lemma cache_pack_insert_free2:
  assumes free: "pack_cache_first_free (pack_cache w2) < length (pack_cache w2)"
  shows "pack_cache (cache_pack_insert packidx path f w2)
           = (pack_cache w2)[pack_cache_first_free (pack_cache w2) :=
               \<lparr>pc_packidx = Some (packidx\<lparr>large_offsets := None\<rparr>), pc_packfile = Some f,
                pc_path_packfile = Some path\<rparr>]
         \<or> pack_cache (cache_pack_insert packidx path f w2) = pack_cache w2"
    and "calm 4 w2 \<Longrightarrow> pack_cache (cache_pack_insert packidx path f w2)
           = (pack_cache w2)[pack_cache_first_free (pack_cache w2) :=
               \<lparr>pc_packidx = Some (packidx\<lparr>large_offsets := None\<rparr>), pc_packfile = Some f,
                pc_path_packfile = Some path\<rparr>]"
proof -
  obtain r4 w4 where d: "dup_packidx packidx w2 = (r4, w4)" by fastforce
  note f4 = frame_eq_fields [OF dup_packidx_frame(1) [OF d]]
  note r4 = dup_packidx_frame(2) [OF d]
  have same: "(pack_cache w2)[pack_cache_first_free (pack_cache w2) :=
      (pack_cache w2 ! pack_cache_first_free (pack_cache w2))\<lparr>pc_packidx := None\<rparr>]
      = pack_cache w2"
  proof -
    have "x\<lparr>pc_packidx := None\<rparr> = x" if "pc_packidx x = None" for x :: pack_cache_entry
      using that by (cases x) simp
    from this [OF pack_cache_first_free_None [OF free]] show ?thesis by simp
  qed
  show "pack_cache (cache_pack_insert packidx path f w2)
           = (pack_cache w2)[pack_cache_first_free (pack_cache w2) :=
               \<lparr>pc_packidx = Some (packidx\<lparr>large_offsets := None\<rparr>), pc_packfile = Some f,
                pc_path_packfile = Some path\<rparr>]
         \<or> pack_cache (cache_pack_insert packidx path f w2) = pack_cache w2"
    using free d f4(1) r4 same
    by (cases r4) (auto simp: cache_pack_insert_def Let_def)
  assume "calm 4 w2"
  from dup_packidx_calm [OF this, of packidx] d
  have "r4 = Some (packidx\<lparr>large_offsets := None\<rparr>)" by simp
  with free d f4(1)
  show "pack_cache (cache_pack_insert packidx path f w2)
           = (pack_cache w2)[pack_cache_first_free (pack_cache w2) :=
               \<lparr>pc_packidx = Some (packidx\<lparr>large_offsets := None\<rparr>), pc_packfile = Some f,
                pc_path_packfile = Some path\<rparr>]"
    by (simp add: cache_pack_insert_def Let_def)
qed

lemma cache_pack_insert_free_exact:
  assumes free: "pack_cache_first_free (pack_cache w2) < length (pack_cache w2)"
  shows "pack_cache (cache_pack_insert packidx path f w2)
           = (if calm 4 w2
              then (pack_cache w2)[pack_cache_first_free (pack_cache w2) :=
                     \<lparr>pc_packidx = Some (packidx\<lparr>large_offsets := None\<rparr>), pc_packfile = Some f,
                      pc_path_packfile = Some path\<rparr>]
              else pack_cache w2)"
proof (cases "calm 4 w2")
  case True
  with cache_pack_insert_free2(2) [OF free True, of packidx path f] show ?thesis by simp
next
  case False
  obtain r4 w4 where d: "dup_packidx packidx w2 = (r4, w4)" by fastforce
  with dup_packidx_result [of packidx w2] False have r4: "r4 = None" by simp
  note f4 = frame_eq_fields [OF dup_packidx_frame(1) [OF d]]
  have same: "(pack_cache w2)[pack_cache_first_free (pack_cache w2) :=
      (pack_cache w2 ! pack_cache_first_free (pack_cache w2))\<lparr>pc_packidx := None\<rparr>]
      = pack_cache w2"
  proof -
    have "x\<lparr>pc_packidx := None\<rparr> = x" if "pc_packidx x = None" for x :: pack_cache_entry
      using that by (cases x) simp
    from this [OF pack_cache_first_free_None [OF free]] show ?thesis by simp
  qed
  from free d f4(1) r4 same False show ?thesis
    by (auto simp: cache_pack_insert_def Let_def)
qed

lemma cache_pack_returns:
  assumes "calm 3 w" and "lookup_path w (pack_path packidx) = Some bs"
    and "fst (read_packfile_hdr \<lparr>fd = next_fd w, fbytes = bs, fpos = 0\<rparr> packidx) = None"
  shows "fst (cache_pack packidx w) = None"
proof -
  obtain ok1 v1 where e1: "env_call w = (ok1, v1)" by fastforce
  obtain ok2 v2 where e2: "env_call v1 = (ok2, v2)" by fastforce
  obtain ok3 v3 where e3: "env_call v2 = (ok3, v3)" by fastforce
  note t1 = frame_eq_fields [OF env_call_frame [OF e1]]
  note t2 = frame_eq_fields [OF env_call_frame [OF e2]]
  note t3 = frame_eq_fields [OF env_call_frame [OF e3]]
  from assms(1) have c3: "calm (Suc (Suc (Suc 0))) w" by (simp add: eval_nat_numeral)
  note a1 = env_call_calm [OF e1 c3]
  note a2 = env_call_calm [OF e2 a1(2)]
  note a3 = env_call_calm [OF e3 a2(2)]
  from e1 e2 a1(1) a2(1) have g: "get_packfile_path packidx w = (Inr (pack_path packidx), v2)"
    by (simp add: get_packfile_path_def pack_path_def)
  have "lookup_path v2 (pack_path packidx) = lookup_path w (pack_path packidx)"
    by (simp add: lookup_path_def t1 t2)
  with assms(2) have lp: "lookup_path v2 (pack_path packidx) = Some bs" by simp
  let ?f0 = "\<lparr>fd = next_fd w, fbytes = bs, fpos = 0\<rparr>"
  let ?w2 = "v3\<lparr>next_fd := Suc (next_fd v3), open_fds := next_fd v3 # open_fds v3\<rparr>"
  from lp e3 a3(1) t1 t2 t3
  have fo: "fopen (pack_path packidx) v2 = (Some ?f0, ?w2)" by (simp add: fopen_def)
  obtain pf where rh: "read_packfile_hdr ?f0 packidx = (None, pf)"
    using assms(3) by (cases "read_packfile_hdr ?f0 packidx") auto
  from g fo rh show ?thesis
    by (simp add: cache_pack_def Let_def split: prod.splits option.splits)
qed

text \<open>
  C5, as the code has it.  A search that finds the id in a cached index leaves the cache
  as it is: no entry is moved.  It returns the copy of that index that \<^verbatim>\<open>dup_packidx\<close>
  makes when the four allocations of the copy succeed, and \<open>GOT_ERR_NO_MEM\<close> when one of
  them fails.  Neither the search nor \<^verbatim>\<open>cache_pack\<close> changes the number of slots, so the
  cache never holds more packs than it has slots.  \<^verbatim>\<open>cache_pack\<close> returns without error
  when the pack file of the index is there with the header of the index and the host lets
  the path be made and the file be opened, which are three calls.  When it has returned
  without error from a cache without a free slot, the entries but the last have moved one
  place up and the stream of the last entry is closed.  Slot 0 then holds the new pack,
  which is the copy of the index, the stream of the pack file and its path, exactly when
  the four allocations of the copy succeed; they come after the three calls and after the
  \<^verbatim>\<open>fclose\<close> of the last entry.  When one of them fails, slot 0 has no index.  When there
  is a free slot, the first free slot takes the new pack in the same way and no other slot
  changes; when the copy fails, the cache is as it was.
\<close>

theorem pack_cache_behaviour:
  "(search_pack_cache (pack_cache w) oid = Some (p, idx)
      \<longrightarrow> pack_cache (snd (search_packidx oid w)) = pack_cache w
        \<and> fst (search_packidx oid w)
            = (if calm 4 w then Inr (p\<lparr>large_offsets := None\<rparr>, idx) else Inl GOT_ERR_NO_MEM))
   \<and> length (pack_cache (snd (search_packidx oid w))) = length (pack_cache w)
   \<and> length (pack_cache (snd (cache_pack packidx w))) = length (pack_cache w)
   \<and> (calm 3 w \<and> lookup_path w (pack_path packidx) = Some bs
        \<and> fst (read_packfile_hdr \<lparr>fd = next_fd w, fbytes = bs, fpos = 0\<rparr> packidx) = None
      \<longrightarrow> fst (cache_pack packidx w) = None)
   \<and> (fst (cache_pack packidx w) = None
        \<and> pack_cache_first_free (pack_cache w) = length (pack_cache w) \<and> pack_cache w \<noteq> []
      \<longrightarrow> tl (pack_cache (snd (cache_pack packidx w))) = butlast (pack_cache w)
        \<and> (\<forall>old. pc_packfile (last (pack_cache w)) = Some old
              \<longrightarrow> fd old \<notin> set (open_fds (snd (cache_pack packidx w))))
        \<and> (\<exists>bs'. lookup_path w (pack_path packidx) = Some bs'
              \<and> (if calm 4 (w\<lparr>faults := drop (if pc_packfile (last (pack_cache w)) = None
                                               then 3 else 4) (faults w)\<rparr>)
                  then hd (pack_cache (snd (cache_pack packidx w)))
                         = stored_pack packidx (next_fd w) bs'
                  else pc_packidx (hd (pack_cache (snd (cache_pack packidx w)))) = None)))
   \<and> (fst (cache_pack packidx w) = None
        \<and> pack_cache_first_free (pack_cache w) < length (pack_cache w)
      \<longrightarrow> (\<exists>bs'. lookup_path w (pack_path packidx) = Some bs'
              \<and> pack_cache (snd (cache_pack packidx w))
                  = (if calm 4 (w\<lparr>faults := drop 3 (faults w)\<rparr>)
                     then (pack_cache w)[pack_cache_first_free (pack_cache w) :=
                            stored_pack packidx (next_fd w) bs']
                     else pack_cache w)))"
proof (intro conjI impI)
  assume a: "search_pack_cache (pack_cache w) oid = Some (p, idx)"
  show "pack_cache (snd (search_packidx oid w)) = pack_cache w"
    by (rule search_packidx_hit [OF a])
  show "fst (search_packidx oid w)
          = (if calm 4 w then Inr (p\<lparr>large_offsets := None\<rparr>, idx) else Inl GOT_ERR_NO_MEM)"
    by (rule search_packidx_hit_exact [OF a])
next
  show "length (pack_cache (snd (search_packidx oid w))) = length (pack_cache w)"
    by (rule search_packidx_length)
next
  show "length (pack_cache (snd (cache_pack packidx w))) = length (pack_cache w)"
    by (rule cache_pack_length)
next
  assume "calm 3 w \<and> lookup_path w (pack_path packidx) = Some bs
        \<and> fst (read_packfile_hdr \<lparr>fd = next_fd w, fbytes = bs, fpos = 0\<rparr> packidx) = None"
  then show "fst (cache_pack packidx w) = None" by (auto intro: cache_pack_returns)
next
  assume a: "fst (cache_pack packidx w) = None
        \<and> pack_cache_first_free (pack_cache w) = length (pack_cache w) \<and> pack_cache w \<noteq> []"
  show "tl (pack_cache (snd (cache_pack packidx w))) = butlast (pack_cache w)"
    using a
    by (rule_tac cache_pack_cases [of packidx w]) (auto simp: cache_pack_insert_full(1))
  show "\<forall>old. pc_packfile (last (pack_cache w)) = Some old
              \<longrightarrow> fd old \<notin> set (open_fds (snd (cache_pack packidx w)))"
  proof (rule cache_pack_cases [of packidx w])
    fix e w1 assume "cache_pack packidx w = (Some e, w1)"
    with a show ?thesis by simp
  next
    fix path f w2
    assume c: "cache_pack packidx w = (None, cache_pack_insert packidx path f w2)"
      and p: "pack_cache w2 = pack_cache w"
    from a p have "pack_cache_first_free (pack_cache w2) = length (pack_cache w2)"
      "pack_cache w2 \<noteq> []" by simp_all
    from cache_pack_insert_full(2) [OF this, of _ packidx path f] c p show ?thesis by simp
  qed
  show "\<exists>bs'. lookup_path w (pack_path packidx) = Some bs'
              \<and> (if calm 4 (w\<lparr>faults := drop (if pc_packfile (last (pack_cache w)) = None
                                               then 3 else 4) (faults w)\<rparr>)
                  then hd (pack_cache (snd (cache_pack packidx w)))
                         = stored_pack packidx (next_fd w) bs'
                  else pc_packidx (hd (pack_cache (snd (cache_pack packidx w)))) = None)"
  proof (rule cache_pack_cases2 [of packidx w])
    fix e w1 assume "cache_pack packidx w = (Some e, w1)"
    with a show ?thesis by simp
  next
    fix bs' w2
    let ?f = "\<lparr>fd = next_fd w, fbytes = bs', fpos = 12\<rparr>"
    assume c: "cache_pack packidx w = (None, cache_pack_insert packidx (pack_path packidx) ?f w2)"
      and p: "pack_cache w2 = pack_cache w"
      and l: "lookup_path w (pack_path packidx) = Some bs'"
      and f: "faults w2 = drop 3 (faults w)"
    from a p have full: "pack_cache_first_free (pack_cache w2) = length (pack_cache w2)"
      "pack_cache w2 \<noteq> []" by simp_all
    have k: "calm 4 (w2\<lparr>faults := drop (if pc_packfile (last (pack_cache w2)) = None then 0 else 1)
                                   (faults w2)\<rparr>)
          = calm 4 (w\<lparr>faults := drop (if pc_packfile (last (pack_cache w)) = None
                                               then 3 else 4) (faults w)\<rparr>)"
      using f p by (simp add: calm_def)
    from cache_pack_insert_full_exact [OF full, of packidx "pack_path packidx" ?f] c l
    show ?thesis unfolding k by (auto simp: stored_pack_def split: if_splits)
  qed
next
  assume a: "fst (cache_pack packidx w) = None
        \<and> pack_cache_first_free (pack_cache w) < length (pack_cache w)"
  show "\<exists>bs'. lookup_path w (pack_path packidx) = Some bs'
              \<and> pack_cache (snd (cache_pack packidx w))
                  = (if calm 4 (w\<lparr>faults := drop 3 (faults w)\<rparr>)
                     then (pack_cache w)[pack_cache_first_free (pack_cache w) :=
                            stored_pack packidx (next_fd w) bs']
                     else pack_cache w)"
  proof (rule cache_pack_cases2 [of packidx w])
    fix e w1 assume "cache_pack packidx w = (Some e, w1)"
    with a show ?thesis by simp
  next
    fix bs' w2
    let ?f = "\<lparr>fd = next_fd w, fbytes = bs', fpos = 12\<rparr>"
    assume c: "cache_pack packidx w = (None, cache_pack_insert packidx (pack_path packidx) ?f w2)"
      and p: "pack_cache w2 = pack_cache w"
      and l: "lookup_path w (pack_path packidx) = Some bs'"
      and f: "faults w2 = drop 3 (faults w)"
    from a p have free: "pack_cache_first_free (pack_cache w2) < length (pack_cache w2)" by simp
    have k: "calm 4 w2 = calm 4 (w\<lparr>faults := drop 3 (faults w)\<rparr>)"
      using f by (simp add: calm_def)
    from cache_pack_insert_free_exact [OF free, of packidx "pack_path packidx" ?f] c p l
    show ?thesis unfolding k by (auto simp: stored_pack_def)
  qed
qed

lemma cached_two_hit: "search_pack_cache (pack_cache cached_two) id9 = Some (nine_idx, 0)"
  by code_simp

lemma cached_full_is_full:
  "pack_cache_first_free (pack_cache cached_full) = length (pack_cache cached_full)"
  by code_simp

lemma calm_no_faults: "faults w = [] \<Longrightarrow> calm n w"
  by (simp add: calm_def)

lemma one_idx_pack_found:
  "lookup_path cached_full (pack_path one_idx) = Some one_pack_hdr"
  "lookup_path cached_two_dir (pack_path one_idx) = Some one_pack_hdr"
  "fst (read_packfile_hdr \<lparr>fd = n, fbytes = one_pack_hdr, fpos = 0\<rparr> one_idx) = None"
  by code_simp+

lemma cached_two_dir_free:
  "pack_cache_first_free (pack_cache cached_two_dir) = 2"
  "length (pack_cache cached_two_dir) = 4"
  by code_simp+

lemma cached_two_no_mem:
  "search_pack_cache (pack_cache (cached_two\<lparr>faults := [True]\<rparr>)) id9 = Some (nine_idx, 0)"
  "\<not> calm 4 (cached_two\<lparr>faults := [True]\<rparr>)"
  by (code_simp, simp add: calm_def)

theorem pack_cache_behaviour_witness:
  "fst (search_packidx id9 cached_two) = Inr (nine_idx, 0)
   \<and> pack_cache (snd (search_packidx id9 cached_two)) = pack_cache cached_two
   \<and> fst (search_packidx id9 (cached_two\<lparr>faults := [True]\<rparr>)) = Inl GOT_ERR_NO_MEM
   \<and> fst (cache_pack one_idx cached_full) = None
   \<and> length (pack_cache (snd (cache_pack one_idx cached_full))) = 4
   \<and> tl (pack_cache (snd (cache_pack one_idx cached_full))) = butlast (pack_cache cached_full)
   \<and> 6 \<notin> set (open_fds (snd (cache_pack one_idx cached_full)))
   \<and> hd (pack_cache (snd (cache_pack one_idx cached_full))) = stored_pack one_idx 7 one_pack_hdr
   \<and> fst (cache_pack one_idx cached_two_dir) = None
   \<and> pack_cache (snd (cache_pack one_idx cached_two_dir))
       = (pack_cache cached_two_dir)[2 := stored_pack one_idx 5 one_pack_hdr]"
proof -
  have ne: "pack_cache cached_full \<noteq> []" by (simp add: cached_full_def)
  have l: "pc_packfile (last (pack_cache cached_full))
      = Some \<lparr>fd = 6, fbytes = one_pack_hdr, fpos = 12\<rparr>"
    by (simp add: cached_full_def cached_def)
  have n: "length (pack_cache cached_full) = 4" by (simp add: cached_full_def)
  have nf: "next_fd cached_full = 7" "next_fd cached_two_dir = 5"
    by (simp_all add: cached_full_def cached_two_dir_def cached_two_def)
  have c: "calm k cached_two" "calm k cached_full" "calm k cached_two_dir"
    "calm k (cached_full\<lparr>faults := drop j (faults cached_full)\<rparr>)"
    "calm k (cached_two_dir\<lparr>faults := drop j (faults cached_two_dir)\<rparr>)" for k j
    by (simp_all add: calm_no_faults cached_two_def cached_full_def cached_two_dir_def host_def)
  have nine: "nine_idx\<lparr>large_offsets := None\<rparr> = nine_idx" by (simp add: nine_idx_def)
  note hit = pack_cache_behaviour [of cached_two id9 nine_idx 0 one_idx one_pack_hdr]
  from hit cached_two_hit c(1) [of 4] nine
  have a: "fst (search_packidx id9 cached_two) = Inr (nine_idx, 0)"
    "pack_cache (snd (search_packidx id9 cached_two)) = pack_cache cached_two"
    by simp_all
  note miss = pack_cache_behaviour [of "cached_two\<lparr>faults := [True]\<rparr>" id9 nine_idx 0 one_idx
      one_pack_hdr]
  from miss cached_two_no_mem
  have a': "fst (search_packidx id9 (cached_two\<lparr>faults := [True]\<rparr>)) = Inl GOT_ERR_NO_MEM"
    by simp
  note full = pack_cache_behaviour [of cached_full id9 nine_idx 0 one_idx one_pack_hdr]
  from full c(2) [of 3] one_idx_pack_found(1) one_idx_pack_found(3) [of 7] nf
  have r: "fst (cache_pack one_idx cached_full) = None" by simp
  from full r cached_full_is_full ne c(4)
  have b: "length (pack_cache (snd (cache_pack one_idx cached_full)))
             = length (pack_cache cached_full)"
    and t: "tl (pack_cache (snd (cache_pack one_idx cached_full))) = butlast (pack_cache cached_full)"
    and d: "\<forall>old. pc_packfile (last (pack_cache cached_full)) = Some old
              \<longrightarrow> fd old \<notin> set (open_fds (snd (cache_pack one_idx cached_full)))"
    and s: "\<exists>bs'. lookup_path cached_full (pack_path one_idx) = Some bs'
              \<and> hd (pack_cache (snd (cache_pack one_idx cached_full)))
                    = stored_pack one_idx (next_fd cached_full) bs'"
    by auto
  from d l have e: "6 \<notin> set (open_fds (snd (cache_pack one_idx cached_full)))" by simp
  from s one_idx_pack_found(1) nf
  have h: "hd (pack_cache (snd (cache_pack one_idx cached_full)))
             = stored_pack one_idx 7 one_pack_hdr" by auto
  note free = pack_cache_behaviour [of cached_two_dir id9 nine_idx 0 one_idx one_pack_hdr]
  from free c(3) [of 3] one_idx_pack_found(2) one_idx_pack_found(3) [of 5] nf
  have r2: "fst (cache_pack one_idx cached_two_dir) = None" by simp
  from free r2 cached_two_dir_free c(5)
  have "\<exists>bs'. lookup_path cached_two_dir (pack_path one_idx) = Some bs'
          \<and> pack_cache (snd (cache_pack one_idx cached_two_dir))
                = (pack_cache cached_two_dir)[pack_cache_first_free (pack_cache cached_two_dir) :=
                     stored_pack one_idx (next_fd cached_two_dir) bs']"
    by auto
  with one_idx_pack_found(2) nf cached_two_dir_free
  have g: "pack_cache (snd (cache_pack one_idx cached_two_dir))
       = (pack_cache cached_two_dir)[2 := stored_pack one_idx 5 one_pack_hdr]" by auto
  from a a' r b n t e h r2 g show ?thesis by simp
qed

text \<open>
  C5 as stated fails.  In \<open>cached_two\<close> the pack of slot 1 has the id; the search finds it
  there, and afterwards slot 0 still holds the other pack and slot 1 the pack that was
  hit: the hit has not been moved to index 0.
\<close>

theorem search_packidx_hit_stays:
  "fst (search_packidx id9 cached_two) = Inr (nine_idx, 0)
   \<and> map pc_packidx (pack_cache (snd (search_packidx id9 cached_two)))
       = [Some one_idx, Some nine_idx, None, None]"
  by code_simp

subsection \<open>Delta chains\<close>

lemma add_delta_Inr:
  assumes "add_delta deltas path off tslen ty sz doff w = (Inr d', w')"
  shows "entries d' = \<lparr>d_path_packfile = path, d_offset = off, d_tslen = tslen, d_type = ty,
                         d_size = sz, d_data_offset = doff\<rparr> # entries deltas
       \<and> nentries d' = nentries deltas + 1"
  using assms by (auto simp: add_delta_def split: prod.splits if_splits)

lemma resolve_ref_delta_done_Inr:
  assumes "resolve_ref_delta_done c f (r, w) = (Inr d, w')"
  shows "r = Inr d"
  using assms by (auto simp: resolve_ref_delta_done_def split: prod.splits if_splits)

lemma fread_bytes_file: "fread_bytes n f = (r, f') \<Longrightarrow> \<exists>k. f' = f\<lparr>fpos := k\<rparr>"
  by (auto simp: fread_bytes_def split: if_splits)

lemma fread_bytes_Some: "fread_bytes n f = (Some bs, f') \<Longrightarrow> f' = f\<lparr>fpos := fpos f + n\<rparr>"
  by (auto simp: fread_bytes_def split: if_splits)

lemma parse_object_type_and_size_loop_file:
  "parse_object_type_and_size_loop f t s i = Inr (ty, sz, len, f') \<Longrightarrow>
     f' = f\<lparr>fpos := fpos f + (len - i)\<rparr> \<and> i < len"
proof (induction f t s i rule: parse_object_type_and_size_loop.induct)
  case (1 packfile t s i)
  from "1.prems" obtain bs f1 where
    i: "\<not> i > 9" and rd: "fread_bytes 1 packfile = (Some bs, f1)"
    by (subst (asm) parse_object_type_and_size_loop.simps)
       (auto split: if_splits prod.splits option.splits)
  from fread_bytes_Some [OF rd] have f1: "f1 = packfile\<lparr>fpos := fpos packfile + 1\<rparr>" .
  show ?case
  proof (cases "hd bs AND GOT_PACK_OBJ_SIZE_MORE \<noteq> 0")
    case False
    with "1.prems" i rd f1 show ?thesis
      by (subst (asm) parse_object_type_and_size_loop.simps) (auto simp: Let_def)
  next
    case True
    let ?t' = "if i = 0
        then drop_bit GOT_PACK_OBJ_SIZE0_TYPE_MASK_SHIFT (hd bs AND GOT_PACK_OBJ_SIZE0_TYPE_MASK)
        else t"
    let ?s' = "if i = 0 then ucast (hd bs AND GOT_PACK_OBJ_SIZE0_VAL_MASK)
        else s OR size_bits (hd bs) (4 + 7 * (i - 1))"
    have rec: "parse_object_type_and_size_loop f1 ?t' ?s' (i + 1) = Inr (ty, sz, len, f')"
      using "1.prems" i rd True
      by (subst (asm) parse_object_type_and_size_loop.simps) (simp add: Let_def)
    have "f' = f1\<lparr>fpos := fpos f1 + (len - (i + 1))\<rparr> \<and> i + 1 < len"
      using "1.IH" [OF i rd [symmetric] refl refl refl refl True] rec
      by (simp add: Let_def)
    with f1 show ?thesis by auto
  qed
qed

lemma parse_object_type_and_size_file:
  "parse_object_type_and_size f = Inr (ty, sz, len, f') \<Longrightarrow> f' = f\<lparr>fpos := fpos f + len\<rparr>"
  unfolding parse_object_type_and_size_def
  by (drule parse_object_type_and_size_loop_file) simp

lemma parse_negative_offset_loop_file:
  "parse_negative_offset_loop f acc i = Inr (neg, len, f') \<Longrightarrow> \<exists>k. f' = f\<lparr>fpos := k\<rparr>"
proof (induction f acc i rule: parse_negative_offset_loop.induct)
  case (1 packfile acc i)
  from "1.prems" obtain bs f1 where
    i: "\<not> i > 8" and rd: "fread_bytes 1 packfile = (Some bs, f1)"
    by (subst (asm) parse_negative_offset_loop.simps)
       (auto split: if_splits prod.splits option.splits)
  from fread_bytes_Some [OF rd] have f1: "f1 = packfile\<lparr>fpos := fpos packfile + 1\<rparr>" .
  show ?case
  proof (cases "hd bs AND GOT_PACK_OBJ_DELTA_OFF_MORE \<noteq> 0")
    case False
    with "1.prems" i rd f1 show ?thesis
      by (subst (asm) parse_negative_offset_loop.simps) (auto simp: Let_def)
  next
    case True
    let ?acc' = "if i = 0 then ucast (hd bs AND GOT_PACK_OBJ_DELTA_OFF_VAL_MASK)
        else push_bit 7 (acc + 1) + ucast (hd bs AND GOT_PACK_OBJ_DELTA_OFF_VAL_MASK)"
    have rec: "parse_negative_offset_loop f1 ?acc' (i + 1) = Inr (neg, len, f')"
      using "1.prems" i rd True
      by (subst (asm) parse_negative_offset_loop.simps) (simp add: Let_def)
    have "\<exists>k. f' = f1\<lparr>fpos := k\<rparr>"
      using "1.IH" [OF i rd [symmetric] refl refl refl True] rec
      by (simp add: Let_def)
    with f1 show ?thesis by auto
  qed
qed

lemma parse_offset_delta_Inr:
  assumes "parse_offset_delta f off = Inr (b, f1)"
  shows "0 < b \<and> (\<exists>k. f1 = f\<lparr>fpos := k\<rparr>)
     \<and> (\<exists>neg len. parse_negative_offset f = Inr (neg, len, f1)
            \<and> b = off_t_wrap (off - neg))"
  using assms
  by (auto simp: parse_offset_delta_def parse_negative_offset_def Let_def
           split: sum.splits if_splits dest: parse_negative_offset_loop_file)

lemma ofs_base_offset_fpos [simp]: "ofs_base_offset (f\<lparr>fpos := k\<rparr>) d = ofs_base_offset f d"
  by (simp add: ofs_base_offset_def)

lemma ofs_linked_fpos [simp]: "ofs_linked (f\<lparr>fpos := k\<rparr>) es = ofs_linked f es"
  by (induction f es rule: ofs_linked.induct) simp_all

lemma ofs_linked_snoc:
  "ofs_linked f (es @ [d]) \<longleftrightarrow>
     ofs_linked f es \<and>
     (es \<noteq> [] \<longrightarrow> d_path_packfile (last es) = d_path_packfile d
                    \<and> ofs_base_offset f d = Some (d_offset (last es)))"
proof (induction es)
  case Nil
  show ?case by simp
next
  case (Cons x es)
  then show ?case by (cases es) auto
qed

text \<open>What a successful resolution has put in front of the queue.\<close>

lemma resolve_delta_chain_shape:
  "resolve_delta_chain fuel deltas packfile path off tslen ty sz w = Some (Inr deltas', w') \<Longrightarrow>
   \<exists>base ds. entries deltas' = base # ds @ entries deltas
      \<and> is_plain_type (d_type base)
      \<and> list_all (\<lambda>d. d_type d = GOT_OBJ_TYPE_OFFSET_DELTA \<or> d_type d = GOT_OBJ_TYPE_REF_DELTA) ds
      \<and> nentries deltas' = nentries deltas + length ds + 1
      \<and> delta_entry_of (last (base # ds)) path off tslen ty sz
      \<and> (fpos packfile = nat off + tslen
           \<and> list_all (\<lambda>d. d_type d = GOT_OBJ_TYPE_OFFSET_DELTA) ds
          \<longrightarrow> ofs_linked packfile (base # ds))"
proof (induction fuel arbitrary: deltas packfile path off tslen ty sz w deltas' w')
  case 0
  then show ?case by simp
next
  case (Suc fuel)
  show ?case
  proof (cases "is_plain_type ty")
    case True
    with Suc.prems
    have "add_delta deltas path off tslen ty sz 0 w = (Inr deltas', w')" by simp
    from add_delta_Inr [OF this] True show ?thesis
      by (intro exI [of _ "hd (entries deltas')"] exI [of _ "[]"]) (simp add: delta_entry_of_def)
  next
    case False
    note plain = False
    show ?thesis
    proof (cases "ty = GOT_OBJ_TYPE_OFFSET_DELTA")
      case True
      with plain Suc.prems
      have "resolve_offset_delta (resolve_delta_chain fuel) deltas packfile path off tslen ty sz w
              = Some (Inr deltas', w')" by simp
      then obtain boff f1 doff w1 deltas1 w2 f2 w3 bty bs btslen f3 where
        po: "parse_offset_delta packfile off = Inr (boff, f1)" and
        ad: "add_delta deltas path off tslen ty sz doff w1 = (Inr deltas1, w2)" and
        sk: "fseeko f1 boff w2 = (Some f2, w3)" and
        ph: "parse_object_type_and_size f2 = Inr (bty, bs, btslen, f3)" and
        rec: "resolve_delta_chain fuel deltas1 f3 path boff btslen bty (unat bs) w3
                = Some (Inr deltas', w')"
        unfolding resolve_offset_delta_def
        by (auto split: sum.splits prod.splits option.splits)
      from parse_offset_delta_Inr [OF po] obtain k where
        boff: "0 < boff" and f1: "f1 = packfile\<lparr>fpos := k\<rparr>" by blast
      from sk have f2: "f2 = f1\<lparr>fpos := nat boff\<rparr>"
        by (auto simp: fseeko_def split: prod.splits if_splits)
      from parse_object_type_and_size_file [OF ph]
      have f3: "f3 = f2\<lparr>fpos := fpos f2 + btslen\<rparr>" .
      from f1 f2 f3 have f3': "f3 = packfile\<lparr>fpos := nat boff + btslen\<rparr>" by simp
      from Suc.IH [OF rec] obtain base ds where
        sh: "entries deltas' = base # ds @ entries deltas1" "is_plain_type (d_type base)"
          "list_all (\<lambda>d. d_type d = GOT_OBJ_TYPE_OFFSET_DELTA \<or> d_type d = GOT_OBJ_TYPE_REF_DELTA) ds"
          "nentries deltas' = nentries deltas1 + length ds + 1"
          "delta_entry_of (last (base # ds)) path boff btslen bty (unat bs)"
          "fpos f3 = nat boff + btslen \<and> list_all (\<lambda>d. d_type d = GOT_OBJ_TYPE_OFFSET_DELTA) ds
             \<longrightarrow> ofs_linked f3 (base # ds)"
        by blast
      let ?d = "\<lparr>d_path_packfile = path, d_offset = off, d_tslen = tslen, d_type = ty,
                         d_size = sz, d_data_offset = doff\<rparr>"
      have link: "fpos packfile = nat off + tslen
           \<and> list_all (\<lambda>d. d_type d = GOT_OBJ_TYPE_OFFSET_DELTA) (ds @ [?d])
          \<longrightarrow> ofs_linked packfile (base # ds @ [?d])"
      proof
        assume a: "fpos packfile = nat off + tslen
           \<and> list_all (\<lambda>d. d_type d = GOT_OBJ_TYPE_OFFSET_DELTA) (ds @ [?d])"
        then have "packfile\<lparr>fpos := nat off + tslen\<rparr> = packfile" by simp
        with po have b: "ofs_base_offset packfile ?d = Some boff"
          by (simp add: ofs_base_offset_def)
        from a sh(6) f3' have "ofs_linked packfile (base # ds)" by simp
        with b sh(5) show "ofs_linked packfile (base # ds @ [?d])"
          using ofs_linked_snoc [of packfile "base # ds" ?d]
          by (simp add: delta_entry_of_def)
      qed
      from add_delta_Inr [OF ad] sh(1-4) True link show ?thesis
        by (intro exI [of _ base] exI [of _ "ds @ [?d]"]) (simp add: delta_entry_of_def)
    next
      case False
      note ofs = False
      show ?thesis
      proof (cases "ty = GOT_OBJ_TYPE_REF_DELTA")
        case False
        with plain ofs Suc.prems show ?thesis by simp
      next
        case True
        with plain ofs Suc.prems
        have "resolve_ref_delta (resolve_delta_chain fuel) deltas packfile path off tslen ty sz w
              = Some (Inr deltas', w')" by simp
        then obtain deltas1 f3 bpath boff btslen bty bsz w5 doff w1 w2 w6 where
          ad: "add_delta deltas path off tslen ty sz doff w1 = (Inr deltas1, w2)" and
          rec: "resolve_delta_chain fuel deltas1 f3 bpath boff btslen bty bsz w5 = Some (Inr deltas', w6)"
          unfolding resolve_ref_delta_def
          by (auto split: sum.splits prod.splits option.splits offset_result.splits
                   dest!: resolve_ref_delta_done_Inr)
        from Suc.IH [OF rec] obtain base ds where
          sh: "entries deltas' = base # ds @ entries deltas1" "is_plain_type (d_type base)"
            "list_all (\<lambda>d. d_type d = GOT_OBJ_TYPE_OFFSET_DELTA \<or> d_type d = GOT_OBJ_TYPE_REF_DELTA) ds"
            "nentries deltas' = nentries deltas1 + length ds + 1"
          by blast
        let ?d = "\<lparr>d_path_packfile = path, d_offset = off, d_tslen = tslen, d_type = ty,
                         d_size = sz, d_data_offset = doff\<rparr>"
        have "GOT_OBJ_TYPE_REF_DELTA \<noteq> GOT_OBJ_TYPE_OFFSET_DELTA"
          by (simp add: GOT_OBJ_TYPE_REF_DELTA_def GOT_OBJ_TYPE_OFFSET_DELTA_def)
        with add_delta_Inr [OF ad] sh True show ?thesis
          by (intro exI [of _ base] exI [of _ "ds @ [?d]"]) (simp add: delta_entry_of_def)
      qed
    qed
  qed
qed

text \<open>The resolution never reads the queue it is given: run with any queue, it does what it
  does with the empty queue and returns that result with the queue behind it.  So a delta
  that is resolved has in front of its own entry the chain of its base, as the base is
  resolved on its own.\<close>

lemma queue_append_empty [simp]:
  "queue_append c \<lparr>nentries = 0, entries = []\<rparr> = c"
  by (simp add: queue_append_def)

lemma queue_append_assoc:
  "queue_append (queue_append a b) c = queue_append a (queue_append b c)"
  by (simp add: queue_append_def)

lemma add_delta_queue:
  "add_delta deltas path off tslen ty sz doff w
     = (case add_delta \<lparr>nentries = 0, entries = []\<rparr> path off tslen ty sz doff w of
          (r, w') \<Rightarrow> (map_sum id (\<lambda>c. queue_append c deltas) r, w'))"
  by (simp add: add_delta_def queue_append_def split: prod.splits)

lemma lift_queue_simps [simp]:
  "lift_queue deltas None = None"
  "lift_queue deltas (Some (Inl e, w)) = Some (Inl e, w)"
  "lift_queue deltas (Some (Inr c, w)) = Some (Inr (queue_append c deltas), w)"
  by (simp_all add: lift_queue_def)

lemma lift_queue_lift_queue:
  "lift_queue deltas (lift_queue c x) = lift_queue (queue_append c deltas) x"
proof (cases x)
  case None
  then show ?thesis by simp
next
  case (Some rw)
  obtain r w where rw: "rw = (r, w)" by (cases rw)
  show ?thesis unfolding Some rw by (cases r) (simp_all add: queue_append_assoc)
qed

lemma lift_queue_done:
  "map_option (resolve_ref_delta_done c f) (lift_queue deltas x)
     = lift_queue deltas (map_option (resolve_ref_delta_done c f) x)"
proof (cases x)
  case None
  then show ?thesis by simp
next
  case (Some rw)
  obtain r w where rw: "rw = (r, w)" by (cases rw)
  show ?thesis unfolding Some rw
    by (cases r) (auto simp: resolve_ref_delta_done_def split: prod.splits)
qed

lemma add_delta_queue':
  assumes "add_delta \<lparr>nentries = 0, entries = []\<rparr> path off tslen ty sz doff w = (a, w')"
  shows "add_delta deltas path off tslen ty sz doff w
           = (map_sum id (\<lambda>c. queue_append c deltas) a, w')"
  using assms by (subst add_delta_queue) simp

lemma resolve_offset_delta_queue:
  assumes R: "\<And>q f p off t ty s w.
     R q f p off t ty s w = lift_queue q (R \<lparr>nentries = 0, entries = []\<rparr> f p off t ty s w)"
  shows "resolve_offset_delta R deltas pf path off tslen ty sz w
     = lift_queue deltas
         (resolve_offset_delta R \<lparr>nentries = 0, entries = []\<rparr> pf path off tslen ty sz w)"
proof (cases "parse_offset_delta pf off")
  case (Inl e)
  then show ?thesis by (simp add: resolve_offset_delta_def)
next
  case (Inr r)
  obtain boff f1 where r: "r = (boff, f1)" by (cases r)
  note po = Inr [unfolded r]
  obtain t1 w1 where ft: "ftello f1 w = (t1, w1)" by fastforce
  show ?thesis
  proof (cases t1)
    case None
    with po ft show ?thesis by (simp add: resolve_offset_delta_def)
  next
    case (Some doff)
    note ft = ft [unfolded Some]
    obtain a w2 where
      ad: "add_delta \<lparr>nentries = 0, entries = []\<rparr> path off tslen ty sz doff w1 = (a, w2)"
      by fastforce
    note ad' = add_delta_queue' [OF ad, of deltas]
    show ?thesis
    proof (cases a)
      case (Inl e)
      with po ft ad ad' show ?thesis by (simp add: resolve_offset_delta_def)
    next
      case (Inr c1)
      note ad = ad [unfolded Inr] and ad' = ad' [unfolded Inr, simplified]
      obtain s3 w3 where sk: "fseeko f1 boff w2 = (s3, w3)" by fastforce
      show ?thesis
      proof (cases s3)
        case None
        with po ft ad ad' sk show ?thesis by (simp add: resolve_offset_delta_def)
      next
        case (Some f2)
        note sk = sk [unfolded Some]
        show ?thesis
        proof (cases "parse_object_type_and_size f2")
          case (Inl e)
          with po ft ad ad' sk show ?thesis by (simp add: resolve_offset_delta_def)
        next
          case (Inr h)
          obtain bty bs btslen f3 where h: "h = (bty, bs, btslen, f3)" by (cases h)
          note ph = Inr [unfolded h]
          have "R (queue_append c1 deltas) f3 path boff btslen bty (unat bs) w3
              = lift_queue deltas (R c1 f3 path boff btslen bty (unat bs) w3)"
            by (subst R, subst (2) R) (simp add: lift_queue_lift_queue)
          with po ft ad ad' sk ph show ?thesis by (simp add: resolve_offset_delta_def)
        qed
      qed
    qed
  qed
qed

lemma resolve_ref_delta_queue:
  assumes R: "\<And>q f p off t ty s w.
     R q f p off t ty s w = lift_queue q (R \<lparr>nentries = 0, entries = []\<rparr> f p off t ty s w)"
  shows "resolve_ref_delta R deltas pf path off tslen ty sz w
     = lift_queue deltas
         (resolve_ref_delta R \<lparr>nentries = 0, entries = []\<rparr> pf path off tslen ty sz w)"
proof -
  obtain i1 f1 where rd: "fread_bytes SHA1_DIGEST_LENGTH pf = (i1, f1)" by fastforce
  show ?thesis
  proof (cases i1)
    case None
    with rd show ?thesis by (simp add: resolve_ref_delta_def)
  next
    case (Some oid)
    note rd = rd [unfolded Some]
    obtain t1 w1 where ft: "ftello f1 w = (t1, w1)" by fastforce
    show ?thesis
    proof (cases t1)
      case None
      with rd ft show ?thesis by (simp add: resolve_ref_delta_def)
    next
      case (Some doff)
      note ft = ft [unfolded Some]
      obtain a w2 where
        ad: "add_delta \<lparr>nentries = 0, entries = []\<rparr> path off tslen ty sz doff w1 = (a, w2)"
        by fastforce
      note ad' = add_delta_queue' [OF ad, of deltas]
      show ?thesis
      proof (cases a)
        case (Inl e)
        with rd ft ad ad' show ?thesis by (simp add: resolve_ref_delta_def)
      next
        case (Inr c1)
        note ad = ad [unfolded Inr] and ad' = ad' [unfolded Inr, simplified]
        obtain s3 w3 where sp: "search_packidx oid w2 = (s3, w3)" by fastforce
        show ?thesis
        proof (cases s3)
          case (Inl e)
          with rd ft ad ad' sp show ?thesis by (simp add: resolve_ref_delta_def)
        next
          case (Inr pi)
          obtain packidx idx where pi: "pi = (packidx, idx)" by (cases pi)
          note sp = sp [unfolded Inr pi]
          show ?thesis
          proof (cases "get_object_offset packidx idx")
            case OffsetError
            with rd ft ad ad' sp show ?thesis by (simp add: resolve_ref_delta_def)
          next
            case (OffsetOutOfBounds k)
            with rd ft ad ad' sp show ?thesis by (simp add: resolve_ref_delta_def)
          next
            case (Offset boff)
            note go = Offset
            obtain o4 w4 where op: "open_packfile packidx w3 = (o4, w4)" by fastforce
            show ?thesis
            proof (cases o4)
              case (Inl e)
              with rd ft ad ad' sp go op show ?thesis by (simp add: resolve_ref_delta_def)
            next
              case (Inr b)
              obtain bf bpath cached where b: "b = (bf, bpath, cached)" by (cases b)
              note op = op [unfolded Inr b]
              obtain s5 w5 where sk: "fseeko bf boff w4 = (s5, w5)" by fastforce
              show ?thesis
              proof (cases s5)
                case None
                with rd ft ad ad' sp go op sk show ?thesis
                  by (cases "resolve_ref_delta_done cached bf (Inl GOT_ERR_ERRNO, w5)")
                     (auto simp: resolve_ref_delta_def resolve_ref_delta_done_def
                           split: prod.splits if_splits)
              next
                case (Some f2)
                note sk = sk [unfolded Some]
                show ?thesis
                proof (cases "parse_object_type_and_size f2")
                  case (Inl e)
                  with rd ft ad ad' sp go op sk show ?thesis
                    by (auto simp: resolve_ref_delta_def resolve_ref_delta_done_def
                           split: prod.splits if_splits)
                next
                  case (Inr h)
                  obtain bty bs btslen f3 where h: "h = (bty, bs, btslen, f3)" by (cases h)
                  note ph = Inr [unfolded h]
                  have "map_option (resolve_ref_delta_done cached bf)
                          (R (queue_append c1 deltas) f3 bpath boff btslen bty (unat bs) w5)
                      = lift_queue deltas (map_option (resolve_ref_delta_done cached bf)
                          (R c1 f3 bpath boff btslen bty (unat bs) w5))"
                    by (subst R, subst (2) R)
                       (simp add: lift_queue_lift_queue lift_queue_done)
                  with rd ft ad ad' sp go op sk ph show ?thesis
                    by (simp add: resolve_ref_delta_def)
                qed
              qed
            qed
          qed
        qed
      qed
    qed
  qed
qed

lemma resolve_delta_chain_queue:
  "resolve_delta_chain fuel deltas pf path off tslen ty sz w
     = lift_queue deltas
         (resolve_delta_chain fuel \<lparr>nentries = 0, entries = []\<rparr> pf path off tslen ty sz w)"
proof (induction fuel arbitrary: deltas pf path off tslen ty sz w)
  case 0
  show ?case by simp
next
  case (Suc fuel)
  note R = Suc.IH
  show ?case
  proof (cases "is_plain_type ty")
    case True
    obtain a w' where
      ad: "add_delta \<lparr>nentries = 0, entries = []\<rparr> path off tslen ty sz 0 w = (a, w')"
      by fastforce
    from add_delta_queue' [OF ad, of deltas] ad True show ?thesis by (cases a) simp_all
  next
    case False
    then show ?thesis
      using resolve_offset_delta_queue [of "resolve_delta_chain fuel" deltas pf path off tslen ty
          sz w, OF R]
        resolve_ref_delta_queue [of "resolve_delta_chain fuel" deltas pf path off tslen ty sz w,
          OF R]
      by auto
  qed
qed

lemma ref_pack_resolves:
  "map_option fst (resolve_delta_chain 4 \<lparr>nentries = 0, entries = []\<rparr>
      \<lparr>fd = 4, fbytes = ref_pack, fpos = 13\<rparr> ''objects/pack/ref.pack'' 12 1
      GOT_OBJ_TYPE_REF_DELTA 6 ref_host)
   = Some (Inr ref_chain)"
  by code_simp

lemma lift_queue_Some_Inr:
  assumes "lift_queue q x = Some (Inr c, w)"
  shows "\<exists>cb. x = Some (Inr cb, w) \<and> c = queue_append cb q"
proof (cases x)
  case None
  with assms show ?thesis by simp
next
  case (Some rw)
  obtain r w0 where rw: "rw = (r, w0)" by (cases rw)
  from assms show ?thesis unfolding Some rw by (cases r) simp_all
qed

lemma resolve_offset_delta_alone:
  assumes "resolve_offset_delta (resolve_delta_chain fuel) deltas pf path off tslen ty sz w
             = Some (Inr deltas', w')"
  shows "\<exists>chb d. resolve_offset_delta (resolve_alone fuel) deltas pf path off tslen ty sz w
             = Some (Inr chb, w')
           \<and> delta_entry_of d path off tslen ty sz
           \<and> entries deltas' = entries chb @ d # entries deltas"
proof -
  from assms obtain boff f1 doff w1 deltas1 w2 f2 w3 bty bs btslen f3 where
    po: "parse_offset_delta pf off = Inr (boff, f1)" and
    ft: "ftello f1 w = (Some doff, w1)" and
    ad: "add_delta deltas path off tslen ty sz doff w1 = (Inr deltas1, w2)" and
    sk: "fseeko f1 boff w2 = (Some f2, w3)" and
    ph: "parse_object_type_and_size f2 = Inr (bty, bs, btslen, f3)" and
    rec: "resolve_delta_chain fuel deltas1 f3 path boff btslen bty (unat bs) w3
            = Some (Inr deltas', w')"
    unfolding resolve_offset_delta_def
    by (auto split: sum.splits prod.splits option.splits)
  from rec resolve_delta_chain_queue [of fuel deltas1 f3 path boff btslen bty "unat bs" w3]
  have "lift_queue deltas1 (resolve_delta_chain fuel \<lparr>nentries = 0, entries = []\<rparr> f3 path
          boff btslen bty (unat bs) w3) = Some (Inr deltas', w')" by simp
  from lift_queue_Some_Inr [OF this] obtain chb where
    alone: "resolve_delta_chain fuel \<lparr>nentries = 0, entries = []\<rparr> f3 path boff btslen bty
              (unat bs) w3 = Some (Inr chb, w')" and
    d': "deltas' = queue_append chb deltas1"
    by blast
  let ?d = "\<lparr>d_path_packfile = path, d_offset = off, d_tslen = tslen, d_type = ty,
             d_size = sz, d_data_offset = doff\<rparr>"
  from po ft ad sk ph alone
  have "resolve_offset_delta (resolve_alone fuel) deltas pf path off tslen ty sz w
          = Some (Inr chb, w')"
    by (simp add: resolve_offset_delta_def resolve_alone_def)
  moreover have "delta_entry_of ?d path off tslen ty sz" by (simp add: delta_entry_of_def)
  moreover from d' add_delta_Inr [OF ad]
  have "entries deltas' = entries chb @ ?d # entries deltas" by (simp add: queue_append_def)
  ultimately show ?thesis by blast
qed

lemma resolve_ref_delta_alone:
  assumes "resolve_ref_delta (resolve_delta_chain fuel) deltas pf path off tslen ty sz w
             = Some (Inr deltas', w')"
  shows "\<exists>chb d. resolve_ref_delta (resolve_alone fuel) deltas pf path off tslen ty sz w
             = Some (Inr chb, w')
           \<and> delta_entry_of d path off tslen ty sz
           \<and> entries deltas' = entries chb @ d # entries deltas"
proof -
  from assms obtain oid f1 doff w1 deltas1 w2 packidx idx w3 boff bf bpath cached w4 f2 w5
      bty bs btslen f3 where
    rd: "fread_bytes SHA1_DIGEST_LENGTH pf = (Some oid, f1)" and
    ft: "ftello f1 w = (Some doff, w1)" and
    ad: "add_delta deltas path off tslen ty sz doff w1 = (Inr deltas1, w2)" and
    sp: "search_packidx oid w2 = (Inr (packidx, idx), w3)" and
    go: "get_object_offset packidx idx = Offset boff" and
    op: "open_packfile packidx w3 = (Inr (bf, bpath, cached), w4)" and
    sk: "fseeko bf boff w4 = (Some f2, w5)" and
    ph: "parse_object_type_and_size f2 = Inr (bty, bs, btslen, f3)" and
    rec: "map_option (resolve_ref_delta_done cached bf)
            (resolve_delta_chain fuel deltas1 f3 bpath boff btslen bty (unat bs) w5)
            = Some (Inr deltas', w')"
    unfolding resolve_ref_delta_def
    by (auto split: sum.splits prod.splits option.splits offset_result.splits
             simp: resolve_ref_delta_done_def split: if_splits)
  have "map_option (resolve_ref_delta_done cached bf)
            (resolve_delta_chain fuel deltas1 f3 bpath boff btslen bty (unat bs) w5)
      = lift_queue deltas1 (map_option (resolve_ref_delta_done cached bf)
            (resolve_delta_chain fuel \<lparr>nentries = 0, entries = []\<rparr> f3 bpath boff btslen bty
               (unat bs) w5))"
    by (subst resolve_delta_chain_queue) (simp add: lift_queue_done)
  with rec have "lift_queue deltas1 (map_option (resolve_ref_delta_done cached bf)
            (resolve_delta_chain fuel \<lparr>nentries = 0, entries = []\<rparr> f3 bpath boff btslen bty
               (unat bs) w5)) = Some (Inr deltas', w')" by simp
  from lift_queue_Some_Inr [OF this] obtain chb where
    alone: "map_option (resolve_ref_delta_done cached bf)
            (resolve_delta_chain fuel \<lparr>nentries = 0, entries = []\<rparr> f3 bpath boff btslen bty
               (unat bs) w5) = Some (Inr chb, w')" and
    d': "deltas' = queue_append chb deltas1"
    by blast
  let ?d = "\<lparr>d_path_packfile = path, d_offset = off, d_tslen = tslen, d_type = ty,
             d_size = sz, d_data_offset = doff\<rparr>"
  from rd ft ad sp go op sk ph alone
  have "resolve_ref_delta (resolve_alone fuel) deltas pf path off tslen ty sz w
          = Some (Inr chb, w')"
    by (simp add: resolve_ref_delta_def resolve_alone_def)
  moreover have "delta_entry_of ?d path off tslen ty sz" by (simp add: delta_entry_of_def)
  moreover from d' add_delta_Inr [OF ad]
  have "entries deltas' = entries chb @ ?d # entries deltas" by (simp add: queue_append_def)
  ultimately show ?thesis by blast
qed

text \<open>
  C6.  When \<^verbatim>\<open>resolve_delta_chain\<close> succeeds, the queue it returns is the queue it was
  given with new entries in front of it: first a base of a plain type, then only deltas,
  as many as the counter says, and last the entry of the object the resolution was asked
  for.  The entries before that last one are the chain of its base, in the order in which
  the resolution of the base returns them when it starts from an empty queue: this holds
  for an OFS delta and for a REF delta, whose base is looked up in the indexes and may
  stand in another pack.  So, read front to back, the queue is the base, then the delta on
  the base, and so on up to the delta of the object itself: each entry was put at the
  head before its base was resolved.  When the stream stands behind the header of the
  object and all the new deltas are OFS deltas, every new entry but the base is directly
  preceded by the entry of the base that its negative offset names.
\<close>

theorem resolve_delta_chain_order:
  "resolve_delta_chain fuel deltas packfile path off tslen ty sz w = Some (Inr deltas', w') \<Longrightarrow>
   \<exists>base ds. entries deltas' = base # ds @ entries deltas
      \<and> is_plain_type (d_type base)
      \<and> list_all (\<lambda>d. d_type d = GOT_OBJ_TYPE_OFFSET_DELTA \<or> d_type d = GOT_OBJ_TYPE_REF_DELTA) ds
      \<and> nentries deltas' = nentries deltas + length ds + 1
      \<and> delta_entry_of (last (base # ds)) path off tslen ty sz
      \<and> (fpos packfile = nat off + tslen
           \<and> list_all (\<lambda>d. d_type d = GOT_OBJ_TYPE_OFFSET_DELTA) ds
          \<longrightarrow> ofs_linked packfile (base # ds))
      \<and> (ty = GOT_OBJ_TYPE_OFFSET_DELTA \<longrightarrow>
           (\<exists>chb. resolve_offset_delta (resolve_alone (fuel - 1)) deltas packfile path off tslen
                     ty sz w = Some (Inr chb, w')
                 \<and> entries chb = butlast (base # ds)))
      \<and> (ty = GOT_OBJ_TYPE_REF_DELTA \<longrightarrow>
           (\<exists>chb. resolve_ref_delta (resolve_alone (fuel - 1)) deltas packfile path off tslen
                     ty sz w = Some (Inr chb, w')
                 \<and> entries chb = butlast (base # ds)))"
proof -
  assume r: "resolve_delta_chain fuel deltas packfile path off tslen ty sz w
               = Some (Inr deltas', w')"
  from resolve_delta_chain_shape [OF r] obtain base ds where
    sh: "entries deltas' = base # ds @ entries deltas"
      "is_plain_type (d_type base)"
      "list_all (\<lambda>d. d_type d = GOT_OBJ_TYPE_OFFSET_DELTA \<or> d_type d = GOT_OBJ_TYPE_REF_DELTA) ds"
      "nentries deltas' = nentries deltas + length ds + 1"
      "delta_entry_of (last (base # ds)) path off tslen ty sz"
      "fpos packfile = nat off + tslen
           \<and> list_all (\<lambda>d. d_type d = GOT_OBJ_TYPE_OFFSET_DELTA) ds
          \<longrightarrow> ofs_linked packfile (base # ds)"
    by blast
  from r obtain n where fuel: "fuel = Suc n" by (cases fuel) simp_all
  have types: "\<not> is_plain_type GOT_OBJ_TYPE_OFFSET_DELTA"
    "\<not> is_plain_type GOT_OBJ_TYPE_REF_DELTA"
    "GOT_OBJ_TYPE_REF_DELTA \<noteq> GOT_OBJ_TYPE_OFFSET_DELTA"
    by (simp_all add: is_plain_type_def GOT_OBJ_TYPE_OFFSET_DELTA_def GOT_OBJ_TYPE_REF_DELTA_def
          GOT_OBJ_TYPE_COMMIT_def GOT_OBJ_TYPE_TREE_def GOT_OBJ_TYPE_BLOB_def GOT_OBJ_TYPE_TAG_def)
  have ofs: "\<exists>chb. resolve_offset_delta (resolve_alone (fuel - 1)) deltas packfile path off tslen
                     ty sz w = Some (Inr chb, w')
                 \<and> entries chb = butlast (base # ds)"
    if ty: "ty = GOT_OBJ_TYPE_OFFSET_DELTA"
  proof -
    from r fuel ty types
    have "resolve_offset_delta (resolve_delta_chain n) deltas packfile path off tslen ty sz w
            = Some (Inr deltas', w')" by simp
    from resolve_offset_delta_alone [OF this] obtain chb d where
      a: "resolve_offset_delta (resolve_alone n) deltas packfile path off tslen ty sz w
            = Some (Inr chb, w')" and
      e: "entries deltas' = entries chb @ d # entries deltas"
      by blast
    from e sh(1) have "base # ds = entries chb @ [d]" by simp
    then have "butlast (base # ds) = entries chb" by (simp only: butlast_snoc)
    with a fuel show ?thesis by auto
  qed
  have ref: "\<exists>chb. resolve_ref_delta (resolve_alone (fuel - 1)) deltas packfile path off tslen
                     ty sz w = Some (Inr chb, w')
                 \<and> entries chb = butlast (base # ds)"
    if ty: "ty = GOT_OBJ_TYPE_REF_DELTA"
  proof -
    from r fuel ty types
    have "resolve_ref_delta (resolve_delta_chain n) deltas packfile path off tslen ty sz w
            = Some (Inr deltas', w')" by simp
    from resolve_ref_delta_alone [OF this] obtain chb d where
      a: "resolve_ref_delta (resolve_alone n) deltas packfile path off tslen ty sz w
            = Some (Inr chb, w')" and
      e: "entries deltas' = entries chb @ d # entries deltas"
      by blast
    from e sh(1) have "base # ds = entries chb @ [d]" by simp
    then have "butlast (base # ds) = entries chb" by (simp only: butlast_snoc)
    with a fuel show ?thesis by auto
  qed
  from sh ofs ref show ?thesis by blast
qed

lemma short_pack_resolves:
  "map_option fst (resolve_delta_chain 3 \<lparr>nentries = 0, entries = []\<rparr>
      \<lparr>fd = 3, fbytes = short_pack, fpos = 5\<rparr> ''objects/pack/gone.pack'' 4 1
      GOT_OBJ_TYPE_OFFSET_DELTA 0 (host []))
   = Some (Inr short_chain)"
  by code_simp

theorem resolve_delta_chain_order_witness:
  "(\<exists>w'. resolve_delta_chain 3 \<lparr>nentries = 0, entries = []\<rparr>
            \<lparr>fd = 3, fbytes = short_pack, fpos = 5\<rparr> ''objects/pack/gone.pack'' 4 1
            GOT_OBJ_TYPE_OFFSET_DELTA 0 (host []) = Some (Inr short_chain, w')
       \<and> (\<exists>chb. resolve_offset_delta (resolve_alone 2) \<lparr>nentries = 0, entries = []\<rparr>
                   \<lparr>fd = 3, fbytes = short_pack, fpos = 5\<rparr> ''objects/pack/gone.pack'' 4 1
                   GOT_OBJ_TYPE_OFFSET_DELTA 0 (host []) = Some (Inr chb, w')
                 \<and> entries chb = butlast (entries short_chain)))
   \<and> is_plain_type (d_type (hd (entries short_chain)))
   \<and> ofs_linked \<lparr>fd = 3, fbytes = short_pack, fpos = 5\<rparr> (entries short_chain)
   \<and> (\<exists>w'. resolve_delta_chain 4 \<lparr>nentries = 0, entries = []\<rparr>
            \<lparr>fd = 4, fbytes = ref_pack, fpos = 13\<rparr> ''objects/pack/ref.pack'' 12 1
            GOT_OBJ_TYPE_REF_DELTA 6 ref_host = Some (Inr ref_chain, w')
       \<and> (\<exists>chb. resolve_ref_delta (resolve_alone 3) \<lparr>nentries = 0, entries = []\<rparr>
                   \<lparr>fd = 4, fbytes = ref_pack, fpos = 13\<rparr> ''objects/pack/ref.pack'' 12 1
                   GOT_OBJ_TYPE_REF_DELTA 6 ref_host = Some (Inr chb, w')
                 \<and> entries chb = butlast (entries ref_chain)))
   \<and> is_plain_type (d_type (hd (entries ref_chain)))"
proof -
  from short_pack_resolves obtain w1 where
    r1: "resolve_delta_chain 3 \<lparr>nentries = 0, entries = []\<rparr>
            \<lparr>fd = 3, fbytes = short_pack, fpos = 5\<rparr> ''objects/pack/gone.pack'' 4 1
            GOT_OBJ_TYPE_OFFSET_DELTA 0 (host []) = Some (Inr short_chain, w1)"
    by auto
  from resolve_delta_chain_order [OF r1] obtain base ds chb where
    e1: "entries short_chain = base # ds" and
    p1: "is_plain_type (d_type base)" and
    k1: "list_all (\<lambda>d. d_type d = GOT_OBJ_TYPE_OFFSET_DELTA) ds
           \<longrightarrow> ofs_linked \<lparr>fd = 3, fbytes = short_pack, fpos = 5\<rparr> (base # ds)" and
    a1: "resolve_offset_delta (resolve_alone 2) \<lparr>nentries = 0, entries = []\<rparr>
           \<lparr>fd = 3, fbytes = short_pack, fpos = 5\<rparr> ''objects/pack/gone.pack'' 4 1
           GOT_OBJ_TYPE_OFFSET_DELTA 0 (host []) = Some (Inr chb, w1)" and
    b1: "entries chb = butlast (base # ds)"
    by auto
  from e1 have "list_all (\<lambda>d. d_type d = GOT_OBJ_TYPE_OFFSET_DELTA) ds"
    by (auto simp: short_chain_def GOT_OBJ_TYPE_OFFSET_DELTA_def)
  with k1 e1 have l1: "ofs_linked \<lparr>fd = 3, fbytes = short_pack, fpos = 5\<rparr> (entries short_chain)"
    by simp
  from ref_pack_resolves obtain w2 where
    r2: "resolve_delta_chain 4 \<lparr>nentries = 0, entries = []\<rparr>
            \<lparr>fd = 4, fbytes = ref_pack, fpos = 13\<rparr> ''objects/pack/ref.pack'' 12 1
            GOT_OBJ_TYPE_REF_DELTA 6 ref_host = Some (Inr ref_chain, w2)"
    by auto
  from resolve_delta_chain_order [OF r2] obtain base2 ds2 chb2 where
    e2: "entries ref_chain = base2 # ds2" and
    p2: "is_plain_type (d_type base2)" and
    a2: "resolve_ref_delta (resolve_alone 3) \<lparr>nentries = 0, entries = []\<rparr>
           \<lparr>fd = 4, fbytes = ref_pack, fpos = 13\<rparr> ''objects/pack/ref.pack'' 12 1
           GOT_OBJ_TYPE_REF_DELTA 6 ref_host = Some (Inr chb2, w2)" and
    b2: "entries chb2 = butlast (base2 # ds2)"
    by auto
  from r1 a1 b1 e1 p1 l1 r2 a2 b2 e2 p2 show ?thesis by auto
qed





lemma loop_pack_descends: "\<not> ofs_descends \<lparr>fd = 3, fbytes = loop_pack, fpos = 2\<rparr> 1"
  by code_simp









subsection \<open>Extraction: the errors\<close>

text \<open>
  C10.  When the flags of the object lack \<open>GOT_OBJ_FLAG_PACKED\<close>, both extraction functions
  return \<open>GOT_ERR_OBJ_NOT_PACKED\<close> at once: the state is the one before the call, so no
  stream has been opened, and the out-parameters hold what they held.
\<close>

theorem extract_object_not_packed:
  assumes "o_flags obj AND GOT_OBJ_FLAG_PACKED = 0"
  shows "got_packfile_extract_object f0 obj w = (Some GOT_ERR_OBJ_NOT_PACKED, f0, obj, w)
     \<and> got_packfile_extract_object_to_mem buf0 len0 obj w
         = (Some GOT_ERR_OBJ_NOT_PACKED, buf0, len0, w)"
  using assms
  by (simp add: got_packfile_extract_object_def got_packfile_extract_object_to_mem_def)

theorem extract_object_not_packed_witness:
  "got_packfile_extract_object None loose_obj (host one_packdir)
     = (Some GOT_ERR_OBJ_NOT_PACKED, None, loose_obj, host one_packdir)
   \<and> got_packfile_extract_object_to_mem None 0 loose_obj (host one_packdir)
     = (Some GOT_ERR_OBJ_NOT_PACKED, None, 0, host one_packdir)"
proof -
  have "o_flags loose_obj AND GOT_OBJ_FLAG_PACKED = 0" by (simp add: loose_obj_def)
  from extract_object_not_packed [OF this] show ?thesis .
qed

lemma dump_delta_chain_to_mem_error:
  assumes "dump_delta_chain_to_mem deltas packfile path w = (Some e, buf, len, w')"
    and "e \<noteq> UNDEFINED_BEHAVIOUR"
  shows "buf = None \<and> len = 0"
  using assms unfolding dump_delta_chain_to_mem_def
  by (auto split: if_splits prod.splits sum.splits option.splits)

text \<open>
  C9, as the code has it.  Take a packed, deltified object whose extraction to memory
  fails with an error code (\<open>UNDEFINED_BEHAVIOUR\<close> is none: it marks the run that the code
  ends without error although it has left what C defines).  When \<^verbatim>\<open>fopen\<close> has opened
  the pack file, the buffer handed back is \<open>NULL\<close> and the length 0, whatever the caller
  had passed.  When \<^verbatim>\<open>fopen\<close> fails, be the file missing or the host unwilling, the
  error is that of \<^verbatim>\<open>fopen\<close> and the buffer and the length are left as the caller passed
  them: nothing has been done but the call of \<^verbatim>\<open>fopen\<close>.
\<close>

theorem extract_object_to_mem_failure:
  assumes "o_flags obj AND GOT_OBJ_FLAG_PACKED \<noteq> 0"
    and "o_flags obj AND GOT_OBJ_FLAG_DELTIFIED \<noteq> 0"
    and "got_packfile_extract_object_to_mem buf0 len0 obj w = (Some e, buf, len, w')"
    and "e \<noteq> UNDEFINED_BEHAVIOUR"
  shows "(fst (fopen (o_path_packfile obj) w) \<noteq> None \<longrightarrow> buf = None \<and> len = 0)
     \<and> (fst (fopen (o_path_packfile obj) w) = None
           \<longrightarrow> e = GOT_ERR_ERRNO \<and> buf = buf0 \<and> len = len0
               \<and> w' = snd (fopen (o_path_packfile obj) w))"
proof -
  obtain r w1 where fo: "fopen (o_path_packfile obj) w = (r, w1)" by fastforce
  show ?thesis
  proof (cases r)
    case None
    with assms fo show ?thesis by (simp add: got_packfile_extract_object_to_mem_def)
  next
    case (Some pf)
    obtain err b l w4 where
      d: "dump_delta_chain_to_mem (o_deltas obj) pf (o_path_packfile obj) w1 = (err, b, l, w4)"
      by (metis prod_cases4)
    with assms fo Some have "err = Some e" "b = buf" "l = len"
      by (simp_all add: got_packfile_extract_object_to_mem_def)
    with d dump_delta_chain_to_mem_error [of "o_deltas obj" pf "o_path_packfile obj" w1 e buf len
        w4] assms(4)
    have "buf = None \<and> len = 0" by simp
    with fo Some show ?thesis by simp
  qed
qed

lemma gone_obj_fails:
  "got_packfile_extract_object_to_mem (Some [1, 2, 3]) 3 gone_obj (host [])
     = (Some GOT_ERR_ERRNO, Some [1, 2, 3], 3, host [])"
  by (simp add: got_packfile_extract_object_to_mem_def gone_obj_def GOT_OBJ_FLAG_PACKED_def
        GOT_OBJ_FLAG_DELTIFIED_def fopen_def lookup_path_def path_objects_pack_def host_def)

lemma text_obj_flags:
  "o_flags text_obj AND GOT_OBJ_FLAG_PACKED \<noteq> 0"
  "o_flags text_obj AND GOT_OBJ_FLAG_DELTIFIED \<noteq> 0"
  by (simp_all add: text_obj_def GOT_OBJ_FLAG_PACKED_def GOT_OBJ_FLAG_DELTIFIED_def)

lemma text_obj_seek_fails:
  "fst (got_packfile_extract_object_to_mem (Some [1, 2, 3]) 3 text_obj
          (text_host\<lparr>faults := [False, True]\<rparr>)) = Some GOT_ERR_ERRNO"
  "fst (fopen (o_path_packfile text_obj) (text_host\<lparr>faults := [False, True]\<rparr>)) \<noteq> None"
  by code_simp+

lemma text_obj_open_fails:
  "fst (got_packfile_extract_object_to_mem (Some [1, 2, 3]) 3 text_obj
          (text_host\<lparr>faults := [True]\<rparr>)) = Some GOT_ERR_ERRNO"
  "fst (fopen (o_path_packfile text_obj) (text_host\<lparr>faults := [True]\<rparr>)) = None"
  "lookup_path (text_host\<lparr>faults := [True]\<rparr>) (o_path_packfile text_obj) \<noteq> None"
  by code_simp+

theorem extract_object_to_mem_failure_witness:
  "fst (fopen (o_path_packfile text_obj) (text_host\<lparr>faults := [False, True]\<rparr>)) \<noteq> None
   \<and> (case got_packfile_extract_object_to_mem (Some [1, 2, 3]) 3 text_obj
              (text_host\<lparr>faults := [False, True]\<rparr>) of
         (err, buf, len, w) \<Rightarrow> err = Some GOT_ERR_ERRNO \<and> buf = None \<and> len = 0)
   \<and> fst (fopen (o_path_packfile text_obj) (text_host\<lparr>faults := [True]\<rparr>)) = None
   \<and> (case got_packfile_extract_object_to_mem (Some [1, 2, 3]) 3 text_obj
              (text_host\<lparr>faults := [True]\<rparr>) of
         (err, buf, len, w) \<Rightarrow> err = Some GOT_ERR_ERRNO \<and> buf = Some [1, 2, 3] \<and> len = 3)"
proof -
  obtain e1 b1 l1 w1 where
    r1: "got_packfile_extract_object_to_mem (Some [1, 2, 3]) 3 text_obj
           (text_host\<lparr>faults := [False, True]\<rparr>) = (e1, b1, l1, w1)"
    by (metis prod_cases4)
  with text_obj_seek_fails(1) have e1: "e1 = Some GOT_ERR_ERRNO" by simp
  from extract_object_to_mem_failure [OF text_obj_flags r1 [unfolded e1]]
    text_obj_seek_fails(2)
  have a: "b1 = None \<and> l1 = 0" by simp
  obtain e2 b2 l2 w2 where
    r2: "got_packfile_extract_object_to_mem (Some [1, 2, 3]) 3 text_obj
           (text_host\<lparr>faults := [True]\<rparr>) = (e2, b2, l2, w2)"
    by (metis prod_cases4)
  with text_obj_open_fails(1) have e2: "e2 = Some GOT_ERR_ERRNO" by simp
  from extract_object_to_mem_failure [OF text_obj_flags r2 [unfolded e2]]
    text_obj_open_fails(2)
  have b: "b2 = Some [1, 2, 3] \<and> l2 = 3" by simp
  from r1 e1 a r2 e2 b text_obj_seek_fails(2) text_obj_open_fails(2) show ?thesis by simp
qed

text \<open>
  C9 as stated fails.  The pack file of \<open>gone_obj\<close> is not in the directory; the
  extraction fails with the error of \<^verbatim>\<open>fopen\<close>, and \<^verbatim>\<open>*buf\<close> and \<^verbatim>\<open>*len\<close> still hold the
  buffer and the length the caller had there, not \<^verbatim>\<open>NULL\<close> and 0.
\<close>

theorem extract_object_to_mem_keeps_buf:
  "o_flags gone_obj AND GOT_OBJ_FLAG_DELTIFIED \<noteq> 0
   \<and> (case got_packfile_extract_object_to_mem (Some [1, 2, 3]) 3 gone_obj (host []) of
        (err, buf, len, w) \<Rightarrow> err = Some GOT_ERR_ERRNO \<and> buf = Some [1, 2, 3] \<and> len = 3)"
  by (simp add: gone_obj_fails)
     (simp add: gone_obj_def GOT_OBJ_FLAG_PACKED_def GOT_OBJ_FLAG_DELTIFIED_def)

subsection \<open>Extraction: to memory and to a file\<close>

text \<open>What a call that returns without error has done.\<close>

lemma fseeko_Some:
  assumes "fseeko f off w = (Some f1, w1)"
  shows "f1 = f\<lparr>fpos := nat off\<rparr>" "frame_eq w w1" "0 \<le> off"
  using assms
  by (auto simp: fseeko_def split: prod.splits if_splits dest: env_call_frame)

lemma fwrite_Some:
  assumes "fwrite buf f w = (Some f1, w1)"
  shows "f1 = f\<lparr>fbytes := take (fpos f) (fbytes f) @ buf @ drop (fpos f + length buf) (fbytes f),
                fpos := fpos f + length buf\<rparr>" "frame_eq w w1"
  using assms
  by (auto simp: fwrite_def split: prod.splits if_splits dest: env_call_frame)

lemma got_inflate_to_mem_Inr:
  assumes "got_inflate_to_mem f w = (Inr b, w1)"
  shows "inflate w (drop (fpos f) (fbytes f)) = Inr b" "frame_eq w w1"
  using assms
  by (auto simp: got_inflate_to_mem_def frame_eq_fields split: prod.splits if_splits
           dest: env_call_frame)

lemma got_inflate_to_file_Inr:
  assumes "got_inflate_to_file f outfile w = (Inr (len, outfile1), w1)"
  shows "\<exists>b. inflate w (drop (fpos f) (fbytes f)) = Inr b \<and> len = length b
           \<and> outfile1 = outfile\<lparr>fbytes := take (fpos outfile) (fbytes outfile) @ b
                                     @ drop (fpos outfile + length b) (fbytes outfile),
                                   fpos := fpos outfile + length b\<rparr>"
    "frame_eq w w1"
  using assms
  by (auto simp: got_inflate_to_file_def split: prod.splits sum.splits option.splits
           dest: fwrite_Some)

lemma inflate_base_to_mem_Inr:
  assumes "inflate_base_to_mem f ms w = (Inr b, w1)"
  shows "inflate w (drop (fpos f) (fbytes f)) = Inr b" "frame_eq w w1"
proof -
  obtain r v where g: "got_inflate_to_mem f w = (r, v)" by fastforce
  obtain ok v2 where e: "env_call v = (ok, v2)" by fastforce
  from assms g e have r: "r = Inr b" and w1: "w1 = v \<or> w1 = v2"
    by (auto simp: inflate_base_to_mem_def Let_def split: if_splits)
  note gi = got_inflate_to_mem_Inr [OF g [unfolded r]]
  from gi show "inflate w (drop (fpos f) (fbytes f)) = Inr b" by simp
  from w1 gi(2) env_call_frame [OF e] show "frame_eq w w1"
    by (auto intro: frame_eq_trans)
qed

lemma delta_apply_base_length:
  assumes "delta_apply base d = Inr r"
  shows "\<exists>rs c. got_delta_get_sizes d = Inr (length base, rs, c)"
  using assms by (auto simp: delta_apply_def split: sum.splits if_splits)

lemma delta_apply_same_base:
  assumes "delta_apply b d = Inr r" and "delta_apply (b @ t) d = Inr r'"
  shows "t = [] \<and> r' = r"
proof -
  from delta_apply_base_length [OF assms(1)] delta_apply_base_length [OF assms(2)]
  have "t = []" by auto
  with assms show ?thesis by simp
qed

lemma got_delta_apply_Inr:
  assumes "got_delta_apply bf db out w = (Inr out', w1)"
  shows "\<exists>r. delta_apply (fbytes bf) db = Inr r
           \<and> out' = out\<lparr>fbytes := take (fpos out) (fbytes out) @ r
                                     @ drop (fpos out + length r) (fbytes out),
                         fpos := fpos out + length r\<rparr>"
    "frame_eq w w1"
  using assms
  by (auto simp: got_delta_apply_def split: prod.splits sum.splits option.splits
           dest: fwrite_Some)

text \<open>Two runs from states that are \<open>host_eq\<close>, on streams of the same bytes: when a step
  succeeds in both, it gives the same value in both and leaves states that are \<open>host_eq\<close>.\<close>

lemma host_eq_refl [simp]: "host_eq w w"
  by (simp add: host_eq_def)

lemma host_eq_step: "host_eq w wa \<Longrightarrow> host_eq w w1 \<Longrightarrow> host_eq wa wa1 \<Longrightarrow> host_eq w1 wa1"
  by (simp add: host_eq_def)

lemma host_eq_frame: "frame_eq w w1 \<Longrightarrow> frame_eq wa wa1 \<Longrightarrow> host_eq w1 wa1 = host_eq w wa"
  by (simp add: host_eq_def frame_eq_fields)

lemma frame_eq_host: "frame_eq w w1 \<Longrightarrow> host_eq w w1"
  by (simp add: host_eq_def frame_eq_fields)

lemma env_call_host: "env_call w = (ok, w1) \<Longrightarrow> host_eq w w1"
  by (rule frame_eq_host [OF env_call_frame])

lemma got_opentemp_Some:
  assumes "got_opentemp w = (Some f, w1)"
  shows "fbytes f = []" "fpos f = 0" "host_eq w w1"
  using assms
  by (auto simp: got_opentemp_def host_eq_def frame_eq_fields split: prod.splits if_splits
           dest!: env_call_frame)

lemma fopen_Some:
  assumes "fopen path w = (Some f, w1)"
  shows "lookup_path w path = Some (fbytes f)" "host_eq w w1"
  using assms
  by (auto simp: fopen_def host_eq_def frame_eq_fields split: option.splits prod.splits if_splits
           dest!: env_call_frame)

lemma lookup_path_host: "host_eq w wa \<Longrightarrow> lookup_path w path = lookup_path wa path"
  by (simp add: lookup_path_def host_eq_def)

lemma fclose_host: "host_eq w (snd (fclose f w))"
  by (auto simp: fclose_def host_eq_def frame_eq_fields split: prod.splits dest!: env_call_frame)

lemma cache_delta_None:
  assumes "cache_delta off buf len path w = (None, w1)"
    and "cache_delta off buf len path wa = (None, wa1)"
    and "host_eq w wa"
  shows "host_eq w1 wa1"
proof -
  obtain ok v where e: "env_call w = (ok, v)" by fastforce
  obtain oka va where ea: "env_call wa = (oka, va)" by fastforce
  note f = frame_eq_fields [OF env_call_frame [OF e]]
  note fa = frame_eq_fields [OF env_call_frame [OF ea]]
  from assms(3) have dc: "delta_cache wa = delta_cache w" by (simp add: host_eq_def)
  obtain i m where fi: "cache_delta_find (delta_cache w) path 0 = (i, m)" by fastforce
  show ?thesis
  proof (cases m)
    case True
    with assms fi dc show ?thesis
      by (auto simp: cache_delta_def Let_def host_eq_def)
  next
    case False
    with assms fi dc e ea f fa show ?thesis
      by (auto simp: cache_delta_def Let_def host_eq_def split: if_splits)
  qed
qed

lemma fetch_delta_buf_agree:
  assumes "fetch_delta_buf d pf path w = (Inr b, w1)"
    and "fetch_delta_buf d pfa path wa = (Inr ba, wa1)"
    and "host_eq w wa" and "fbytes pf = fbytes pfa"
  shows "b = ba \<and> host_eq w1 wa1"
proof -
  from assms(3) have g: "get_cached_delta (d_data_offset d) path wa
      = get_cached_delta (d_data_offset d) path w"
    by (simp add: get_cached_delta_def host_eq_def)
  obtain cb cl where c: "get_cached_delta (d_data_offset d) path w = (cb, cl)" by fastforce
  show ?thesis
  proof (cases cb)
    case (Some buf)
    with assms c g show ?thesis by (simp add: fetch_delta_buf_def)
  next
    case None
    from assms(1) c None obtain f1 v1 v2 where
      s: "fseeko pf (d_data_offset d) w = (Some f1, v1)" and
      i: "got_inflate_to_mem f1 v1 = (Inr b, v2)" and
      cd: "cache_delta (d_data_offset d) b (length b) path v2 = (None, w1)"
      by (auto simp: fetch_delta_buf_def split: prod.splits option.splits sum.splits)
    from assms(2) c g None obtain f1a v1a v2a where
      sa: "fseeko pfa (d_data_offset d) wa = (Some f1a, v1a)" and
      ia: "got_inflate_to_mem f1a v1a = (Inr ba, v2a)" and
      cda: "cache_delta (d_data_offset d) ba (length ba) path v2a = (None, wa1)"
      by (auto simp: fetch_delta_buf_def split: prod.splits option.splits sum.splits)
    note fs = fseeko_Some [OF s] and fsa = fseeko_Some [OF sa]
    note gi = got_inflate_to_mem_Inr [OF i] and gia = got_inflate_to_mem_Inr [OF ia]
    have h1: "host_eq v1 v1a" using host_eq_frame [OF fs(2) fsa(2)] assms(3) by simp
    have h2: "host_eq v2 v2a" using host_eq_frame [OF gi(2) gia(2)] h1 by simp
    from h1 have "inflate v1 = inflate v1a" by (simp add: host_eq_def)
    with gi(1) gia(1) fs(1) fsa(1) assms(4) have eq: "b = ba" by simp
    from cache_delta_None [OF cd cda [folded eq] h2] eq show ?thesis by simp
  qed
qed

lemma get_delta_sizes_agree:
  assumes "get_delta_sizes d pf w = (Inr r, w1)"
    and "get_delta_sizes d pfa wa = (Inr ra, wa1)"
    and "host_eq w wa" and "fbytes pf = fbytes pfa"
  shows "r = ra \<and> host_eq w1 wa1"
proof -
  from assms(1) obtain f1 v1 b where
    s: "fseeko pf (d_data_offset d) w = (Some f1, v1)" and
    i: "got_inflate_to_mem f1 v1 = (Inr b, w1)" and
    z: "map_sum id (\<lambda>(x, y, c). (x, y)) (got_delta_get_sizes b) = Inr r"
    by (auto simp: get_delta_sizes_def split: prod.splits option.splits sum.splits)
  from assms(2) obtain f1a v1a ba where
    sa: "fseeko pfa (d_data_offset d) wa = (Some f1a, v1a)" and
    ia: "got_inflate_to_mem f1a v1a = (Inr ba, wa1)" and
    za: "map_sum id (\<lambda>(x, y, c). (x, y)) (got_delta_get_sizes ba) = Inr ra"
    by (auto simp: get_delta_sizes_def split: prod.splits option.splits sum.splits)
  note fs = fseeko_Some [OF s] and fsa = fseeko_Some [OF sa]
  note gi = got_inflate_to_mem_Inr [OF i] and gia = got_inflate_to_mem_Inr [OF ia]
  have h1: "host_eq v1 v1a" using host_eq_frame [OF fs(2) fsa(2)] assms(3) by simp
  have h2: "host_eq w1 wa1" using host_eq_frame [OF gi(2) gia(2)] h1 by simp
  from h1 have "inflate v1 = inflate v1a" by (simp add: host_eq_def)
  with gi(1) gia(1) fs(1) fsa(1) assms(4) have eq: "b = ba" by simp
  with z za h2 show ?thesis by simp
qed

lemma get_delta_chain_max_size_loop_agree:
  assumes "get_delta_chain_max_size_loop es pf m bs rs w = (Inr r, w1)"
    and "get_delta_chain_max_size_loop es pfa m bs rs wa = (Inr ra, wa1)"
    and "host_eq w wa" and "fbytes pf = fbytes pfa"
  shows "r = ra \<and> host_eq w1 wa1"
  using assms
proof (induction es arbitrary: m bs rs w wa)
  case Nil
  then show ?case by simp
next
  case (Cons d es)
  show ?case
  proof (cases "is_plain_type (d_type d)")
    case True
    with Cons.prems Cons.IH show ?thesis by simp
  next
    case False
    from Cons.prems(1) False obtain b' r' v where
      g: "get_delta_sizes d pf w = (Inr (b', r'), v)" and
      l: "get_delta_chain_max_size_loop es pf (max (max m b') r') b' r' v = (Inr r, w1)"
      by (auto split: prod.splits sum.splits)
    from Cons.prems(2) False obtain ba' ra' va where
      ga: "get_delta_sizes d pfa wa = (Inr (ba', ra'), va)" and
      la: "get_delta_chain_max_size_loop es pfa (max (max m ba') ra') ba' ra' va = (Inr ra, wa1)"
      by (auto split: prod.splits sum.splits)
    from get_delta_sizes_agree [OF g ga Cons.prems(3,4)]
    have eq: "b' = ba'" "r' = ra'" and h: "host_eq v va" by simp_all
    from Cons.IH [OF l la [folded eq] h Cons.prems(4)] show ?thesis .
  qed
qed

text \<open>The two loops in step, first when \<^verbatim>\<open>dump_delta_chain_to_file\<close> works in memory, then
  when it works with the temporary files.  The temporary files are never truncated: after
  a swap the base file may hold, behind the new base, bytes of an older one, and the delta
  that applies to it then fails on its base size.\<close>

lemma mem_mode_loops_agree:
  assumes "dump_delta_chain_to_mem_loop es ne ms pf path v w = (None, v', w')"
    and "dump_delta_chain_to_file_loop es ne ms pfa path va wa = (None, va', wa')"
    and "host_eq w wa" and "fbytes pf = fbytes pfa" and "mem_mode v va"
  shows "mem_mode v' va' \<and> fv_outfile va' = fv_outfile va"
  using assms
proof (induction es arbitrary: v va w wa)
  case Nil
  then show ?case by simp
next
  case (Cons d es)
  from Cons.prems(5) have n: "fv_n va = mv_n v" and bb: "fv_base_buf va = mv_base_buf v"
    and bf: "fv_base_file va = None" and af: "fv_accum_file va = None"
    by (simp_all add: mem_mode_def)
  show ?case
  proof (cases "mv_n v = 0")
    case True
    from Cons.prems(1) True obtain f1 v1 b v2 where
      s: "fseeko pf (d_offset d + int (d_tslen d)) w = (Some f1, v1)" and
      i: "inflate_base_to_mem f1 ms v1 = (Inr b, v2)" and
      l: "dump_delta_chain_to_mem_loop es ne ms pf path
            (v\<lparr>mv_n := 1, mv_base_buf := Some b\<rparr>) v2 = (None, v', w')"
      by (auto split: if_splits prod.splits option.splits sum.splits)
    from Cons.prems(2) True n bf obtain f1a v1a ba v2a where
      sa: "fseeko pfa (d_offset d + int (d_tslen d)) wa = (Some f1a, v1a)" and
      ia: "inflate_base_to_mem f1a ms v1a = (Inr ba, v2a)" and
      la: "dump_delta_chain_to_file_loop es ne ms pfa path
            (va\<lparr>fv_n := 1, fv_base_buf := Some ba\<rparr>) v2a = (None, va', wa')"
      by (auto split: if_splits prod.splits option.splits sum.splits)
    note fs = fseeko_Some [OF s] and fsa = fseeko_Some [OF sa]
    note ib = inflate_base_to_mem_Inr [OF i] and iba = inflate_base_to_mem_Inr [OF ia]
    have h1: "host_eq v1 v1a"
      by (rule host_eq_step [OF Cons.prems(3) frame_eq_host [OF fs(2)] frame_eq_host [OF fsa(2)]])
    have h2: "host_eq v2 v2a"
      by (rule host_eq_step [OF h1 frame_eq_host [OF ib(2)] frame_eq_host [OF iba(2)]])
    from h1 have "inflate v1 = inflate v1a" by (simp add: host_eq_def)
    with ib(1) iba(1) fs(1) fsa(1) Cons.prems(4) have eq: "b = ba" by simp
    have m: "mem_mode (v\<lparr>mv_n := 1, mv_base_buf := Some b\<rparr>)
               (va\<lparr>fv_n := 1, fv_base_buf := Some b\<rparr>)"
      using Cons.prems(5) by (simp add: mem_mode_def)
    from Cons.IH [OF l la [folded eq] h2 Cons.prems(4) m] show ?thesis by simp
  next
    case False
    from Cons.prems(1) False obtain db v1 b r where
      f: "fetch_delta_buf d pf path w = (Inr db, v1)" and
      b: "mv_base_buf v = Some b" and
      a: "got_delta_apply_in_mem b db = Inr r" and
      l: "dump_delta_chain_to_mem_loop es ne ms pf path
            (if mv_n v + 1 < ne
             then \<lparr>mv_n = mv_n v + 1, mv_base_buf = Some r, mv_accum_buf = b,
                   mv_accum_size = Some (length r)\<rparr>
             else \<lparr>mv_n = mv_n v + 1, mv_base_buf = Some b, mv_accum_buf = r,
                   mv_accum_size = Some (length r)\<rparr>) v1 = (None, v', w')"
      by (auto split: prod.splits option.splits sum.splits)
    from Cons.prems(2) False n bb b obtain dba v1a where
      fa: "fetch_delta_buf d pfa path wa = (Inr dba, v1a)"
      by (auto split: prod.splits option.splits sum.splits)
    from fetch_delta_buf_agree [OF f fa Cons.prems(3,4)]
    have eq: "dba = db" and h1: "host_eq v1 v1a" by simp_all
    from Cons.prems(2) False n bb b fa eq a have
      la: "dump_delta_chain_to_file_loop es ne ms pfa path
            (if mv_n v + 1 < ne
             then va\<lparr>fv_n := mv_n v + 1, fv_base_buf := Some r,
                     fv_accum_buf := Some b, fv_accum_size := Some (length r)\<rparr>
             else va\<lparr>fv_n := mv_n v + 1, fv_accum_buf := Some r,
                     fv_accum_size := Some (length r)\<rparr>) v1a = (None, va', wa')"
      by (auto split: if_splits)
    have m: "mem_mode
       (if mv_n v + 1 < ne
             then \<lparr>mv_n = mv_n v + 1, mv_base_buf = Some r, mv_accum_buf = b,
                   mv_accum_size = Some (length r)\<rparr>
             else \<lparr>mv_n = mv_n v + 1, mv_base_buf = Some b, mv_accum_buf = r,
                   mv_accum_size = Some (length r)\<rparr>)
       (if mv_n v + 1 < ne
             then va\<lparr>fv_n := mv_n v + 1, fv_base_buf := Some r,
                     fv_accum_buf := Some b, fv_accum_size := Some (length r)\<rparr>
             else va\<lparr>fv_n := mv_n v + 1, fv_accum_buf := Some r,
                     fv_accum_size := Some (length r)\<rparr>)"
      using Cons.prems(5) b by (simp add: mem_mode_def)
    from Cons.IH [OF l la h1 Cons.prems(4) m] show ?thesis by (simp split: if_splits)
  qed
qed

lemma file_mode_loops_agree:
  assumes "dump_delta_chain_to_mem_loop rest ne ms pf path v w = (None, v', w')"
    and "dump_delta_chain_to_file_loop rest ne ms pfa path va wa = (None, va', wa')"
    and "host_eq w wa" and "fbytes pf = fbytes pfa" and "file_mode ne rest v va"
  shows "file_mode ne [] v' va'"
  using assms
proof (induction rest arbitrary: v va w wa)
  case Nil
  then show ?case by simp
next
  case (Cons d es)
  from Cons.prems(5) obtain bf af b t where
    n: "fv_n va = mv_n v" and pos: "0 < mv_n v" and ne: "mv_n v + length (d # es) = ne" and
    nb: "fv_base_buf va = None" and na: "fv_accum_buf va = None" and
    bf: "fv_base_file va = Some bf" and af: "fv_accum_file va = Some af" and
    afp: "fpos af = 0" and b: "mv_base_buf v = Some b" and bt: "fbytes bf = b @ t" and
    oe: "fbytes (fv_outfile va) = []" and op: "fpos (fv_outfile va) = 0"
    by (auto simp: file_mode_def)
  from Cons.prems(1) pos b obtain db v1 r where
    f: "fetch_delta_buf d pf path w = (Inr db, v1)" and
    a: "delta_apply b db = Inr r" and
    l: "dump_delta_chain_to_mem_loop es ne ms pf path
          (if mv_n v + 1 < ne
           then \<lparr>mv_n = mv_n v + 1, mv_base_buf = Some r, mv_accum_buf = b,
                 mv_accum_size = Some (length r)\<rparr>
           else \<lparr>mv_n = mv_n v + 1, mv_base_buf = Some b, mv_accum_buf = r,
                 mv_accum_size = Some (length r)\<rparr>) v1 = (None, v', w')"
    by (auto simp: got_delta_apply_in_mem_def split: prod.splits option.splits sum.splits)
  from Cons.prems(2) pos n obtain dba v1a where
    fa: "fetch_delta_buf d pfa path wa = (Inr dba, v1a)"
    by (auto split: prod.splits option.splits sum.splits)
  from fetch_delta_buf_agree [OF f fa Cons.prems(3,4)]
  have eq: "dba = db" and h1: "host_eq v1 v1a" by simp_all
  show ?case
  proof (cases "es = []")
    case True
    with ne have last: "\<not> mv_n v + 1 < ne" by simp
    from Cons.prems(2) pos n nb bf af fa eq last obtain out' v2a where
      ga: "got_delta_apply bf db (fv_outfile va) v1a = (Inr out', v2a)" and
      la: "dump_delta_chain_to_file_loop es ne ms pfa path
             (va\<lparr>fv_n := mv_n v + 1, fv_outfile := out'\<rparr>) v2a = (None, va', wa')"
      by (auto split: prod.splits sum.splits)
    from got_delta_apply_Inr(1) [OF ga] bt oe op obtain r' where
      a': "delta_apply (b @ t) db = Inr r'" and o': "fbytes out' = r'"
      by auto
    from delta_apply_same_base [OF a a'] o' have o: "fbytes out' = r" by simp
    have h2: "host_eq v1 v2a"
      by (rule host_eq_step [OF h1 host_eq_refl frame_eq_host [OF got_delta_apply_Inr(2) [OF ga]]])
    have m: "file_mode ne es
        (if mv_n v + 1 < ne
           then \<lparr>mv_n = mv_n v + 1, mv_base_buf = Some r, mv_accum_buf = b,
                 mv_accum_size = Some (length r)\<rparr>
           else \<lparr>mv_n = mv_n v + 1, mv_base_buf = Some b, mv_accum_buf = r,
                 mv_accum_size = Some (length r)\<rparr>)
       (va\<lparr>fv_n := mv_n v + 1, fv_outfile := out'\<rparr>)"
      using True last ne nb na bf af afp o by (simp add: file_mode_def)
    from Cons.IH [OF l la h2 Cons.prems(4) m] show ?thesis .
  next
    case False
    with ne have more: "mv_n v + 1 < ne" by (cases es) simp_all
    from Cons.prems(2) pos n nb bf af fa eq more obtain af' v2a where
      ga: "got_delta_apply bf db af v1a = (Inr af', v2a)" and
      la: "dump_delta_chain_to_file_loop es ne ms pfa path
             (va\<lparr>fv_n := mv_n v + 1, fv_base_file := Some (rewind af'),
                  fv_accum_file := Some (rewind bf)\<rparr>) v2a = (None, va', wa')"
      by (auto split: prod.splits sum.splits)
    from got_delta_apply_Inr(1) [OF ga] bt afp obtain r' where
      a': "delta_apply (b @ t) db = Inr r'" and
      o': "fbytes af' = r' @ drop (length r') (fbytes af)"
      by auto
    from delta_apply_same_base [OF a a'] o'
    have o: "fbytes af' = r @ drop (length r) (fbytes af)" by simp
    have h2: "host_eq v1 v2a"
      by (rule host_eq_step [OF h1 host_eq_refl frame_eq_host [OF got_delta_apply_Inr(2) [OF ga]]])
    have m: "file_mode ne es
        (if mv_n v + 1 < ne
           then \<lparr>mv_n = mv_n v + 1, mv_base_buf = Some r, mv_accum_buf = b,
                 mv_accum_size = Some (length r)\<rparr>
           else \<lparr>mv_n = mv_n v + 1, mv_base_buf = Some b, mv_accum_buf = r,
                 mv_accum_size = Some (length r)\<rparr>)
       (va\<lparr>fv_n := mv_n v + 1, fv_base_file := Some (rewind af'),
                  fv_accum_file := Some (rewind bf)\<rparr>)"
      using False more ne nb na o oe op by (simp add: file_mode_def rewind_def)
    from Cons.IH [OF l la h2 Cons.prems(4) m] show ?thesis .
  qed
qed

lemma dump_delta_chain_to_file_done_None:
  assumes "dump_delta_chain_to_file_done err va w = (None, f', w1)"
  shows "err = None"
    "fv_accum_buf va = None \<Longrightarrow> fbytes f' = fbytes (fv_outfile va)"
    "fv_accum_buf va = Some ab \<Longrightarrow> fbytes (fv_outfile va) = [] \<Longrightarrow> fpos (fv_outfile va) = 0
       \<Longrightarrow> \<exists>n. fv_accum_size va = Some n \<and> fbytes f' = take n ab"
    "host_eq w w1"
proof -
  show "err = None" using assms
    by (auto simp: dump_delta_chain_to_file_done_def Let_def
             split: option.splits prod.splits if_splits)
  show "fbytes f' = fbytes (fv_outfile va)" if "fv_accum_buf va = None"
    using assms that
    by (auto simp: dump_delta_chain_to_file_done_def Let_def rewind_def split: if_splits)
  show "\<exists>n. fv_accum_size va = Some n \<and> fbytes f' = take n ab"
    if ab: "fv_accum_buf va = Some ab" and e: "fbytes (fv_outfile va) = []"
      and p: "fpos (fv_outfile va) = 0"
  proof -
    from assms ab obtain n o' v where
      n: "fv_accum_size va = Some n" and
      fw: "fwrite (take n ab) (fv_outfile va) w = (Some o', v)" and
      f': "f' = rewind o'"
      by (auto simp: dump_delta_chain_to_file_done_def Let_def
               split: option.splits prod.splits if_splits)
    from fwrite_Some(1) [OF fw] f' e p n show ?thesis by (simp add: rewind_def)
  qed
  have c: "host_eq w (case x of None \<Rightarrow> w | Some f \<Rightarrow> snd (fclose f w))" for x w
    using fclose_host by (cases x) simp_all
  have t: "host_eq a b \<Longrightarrow> host_eq b c \<Longrightarrow> host_eq a c" for a b c
    by (simp add: host_eq_def)
  show "host_eq w w1"
  proof (cases "fv_accum_buf va")
    case None
    with assms have "w1 = (case fv_accum_file va of None \<Rightarrow>
          (case fv_base_file va of None \<Rightarrow> w | Some f \<Rightarrow> snd (fclose f w))
        | Some f \<Rightarrow> snd (fclose f (case fv_base_file va of None \<Rightarrow> w | Some f \<Rightarrow> snd (fclose f w))))"
      by (simp add: dump_delta_chain_to_file_done_def Let_def split: if_splits)
    then show ?thesis using t [OF c c] by simp
  next
    case (Some ab)
    with assms obtain n o' v where
      fw: "fwrite (take n ab) (fv_outfile va) w = (Some o', v)"
      and "w1 = (case fv_accum_file va of None \<Rightarrow>
          (case fv_base_file va of None \<Rightarrow> v | Some f \<Rightarrow> snd (fclose f v))
        | Some f \<Rightarrow> snd (fclose f (case fv_base_file va of None \<Rightarrow> v | Some f \<Rightarrow> snd (fclose f v))))"
      by (auto simp: dump_delta_chain_to_file_done_def Let_def split: if_splits option.splits prod.splits)
    then show ?thesis using t [OF frame_eq_host [OF fwrite_Some(2) [OF fw]] t [OF c c]] by simp
  qed
qed

lemma file_mode_loops_start:
  assumes "dump_delta_chain_to_mem_loop (e0 # rest) ne ms pf path
             \<lparr>mv_n = 0, mv_base_buf = None, mv_accum_buf = [], mv_accum_size = None\<rparr> w
           = (None, v', w')"
    and "dump_delta_chain_to_file_loop (e0 # rest) ne ms pfa path
             \<lparr>fv_n = 0, fv_base_buf = None, fv_accum_buf = None, fv_accum_size = None,
              fv_base_file = Some bf0, fv_accum_file = Some af0, fv_outfile = outfile\<rparr> wa
           = (None, va', wa')"
    and "host_eq w wa" and "fbytes pf = fbytes pfa"
    and "fbytes bf0 = []" and "fpos bf0 = 0" and "fpos af0 = 0"
    and "fbytes outfile = []" and "fpos outfile = 0"
    and "rest \<noteq> []" and "ne = Suc (length rest)"
  shows "file_mode ne [] v' va'"
proof -
  let ?v0 = "\<lparr>mv_n = 0, mv_base_buf = None, mv_accum_buf = [], mv_accum_size = None\<rparr>"
  let ?va0 = "\<lparr>fv_n = 0, fv_base_buf = None, fv_accum_buf = None, fv_accum_size = None,
              fv_base_file = Some bf0, fv_accum_file = Some af0, fv_outfile = outfile\<rparr>"
  from assms(1) obtain f1 v1 b v2 where
    s: "fseeko pf (d_offset e0 + int (d_tslen e0)) w = (Some f1, v1)" and
    i: "inflate_base_to_mem f1 ms v1 = (Inr b, v2)" and
    l: "dump_delta_chain_to_mem_loop rest ne ms pf path
          (?v0\<lparr>mv_n := 1, mv_base_buf := Some b\<rparr>) v2 = (None, v', w')"
    by (auto split: if_splits prod.splits option.splits sum.splits)
  from assms(2) obtain f1a v1a dl bf1 v2a where
    sa: "fseeko pfa (d_offset e0 + int (d_tslen e0)) wa = (Some f1a, v1a)" and
    ia: "got_inflate_to_file f1a bf0 v1a = (Inr (dl, bf1), v2a)" and
    la: "dump_delta_chain_to_file_loop rest ne ms pfa path
          (?va0\<lparr>fv_n := 1, fv_base_file := Some (rewind bf1)\<rparr>) v2a = (None, va', wa')"
    by (auto split: if_splits prod.splits option.splits sum.splits)
  note fs = fseeko_Some [OF s] and fsa = fseeko_Some [OF sa]
  note ib = inflate_base_to_mem_Inr [OF i] and iba = got_inflate_to_file_Inr [OF ia]
  have h1: "host_eq v1 v1a"
    by (rule host_eq_step [OF assms(3) frame_eq_host [OF fs(2)] frame_eq_host [OF fsa(2)]])
  have h2: "host_eq v2 v2a"
    by (rule host_eq_step [OF h1 frame_eq_host [OF ib(2)] frame_eq_host [OF iba(2)]])
  from h1 have "inflate v1 = inflate v1a" by (simp add: host_eq_def)
  with ib(1) iba(1) fs(1) fsa(1) assms(4,5,6) have eq: "fbytes bf1 = b" by auto
  have m: "file_mode ne rest (?v0\<lparr>mv_n := 1, mv_base_buf := Some b\<rparr>)
             (?va0\<lparr>fv_n := 1, fv_base_file := Some (rewind bf1)\<rparr>)"
    using assms(7-11) eq by (simp add: file_mode_def rewind_def)
  from file_mode_loops_agree [OF l la h2 assms(4) m] show ?thesis .
qed

lemma dump_delta_chain_agree:
  assumes "dump_delta_chain_to_mem deltas pf path w = (None, buf, len, w')"
    and "dump_delta_chain_to_file deltas outfile pfa path wa = (None, f', wa')"
    and "host_eq w wa" and "fbytes pf = fbytes pfa"
    and "fbytes outfile = []" and "fpos outfile = 0"
    and "nentries deltas = length (entries deltas)" and "2 \<le> length (entries deltas)"
  shows "\<exists>b. buf = Some b \<and> fbytes f' = take len b"
proof -
  from assms(8) obtain e0 rest where es: "entries deltas = e0 # rest" and r: "rest \<noteq> []"
    by (cases "entries deltas"; cases "tl (entries deltas)") auto
  from assms(7) es have ne: "nentries deltas = Suc (length rest)" by simp
  from es have nonempty: "entries deltas \<noteq> []" by simp
  let ?v0 = "\<lparr>mv_n = 0, mv_base_buf = None, mv_accum_buf = [], mv_accum_size = None\<rparr>"
  from assms(1) nonempty obtain ms v1 ok v2 v where
    g: "get_delta_chain_max_size deltas pf w = (Inr ms, v1)" and
    e: "env_call v1 = (ok, v2)" and
    l: "dump_delta_chain_to_mem_loop (entries deltas) (nentries deltas) ms pf path ?v0 v2
          = (None, v, w')" and
    res: "buf = Some (mv_accum_buf v)" "mv_accum_size v = Some len"
    by (auto simp: dump_delta_chain_to_mem_def split: prod.splits sum.splits option.splits if_splits)
  from assms(2) nonempty obtain msa v1a where
    ga: "get_delta_chain_max_size deltas pfa wa = (Inr msa, v1a)"
    by (auto simp: dump_delta_chain_to_file_def split: prod.splits sum.splits)
  from get_delta_chain_max_size_loop_agree
    [OF g [unfolded get_delta_chain_max_size_def] ga [unfolded get_delta_chain_max_size_def]
        assms(3,4)]
  have eq: "msa = ms" and h1: "host_eq v1 v1a" by simp_all
  have h2: "host_eq v2 v1a"
    by (rule host_eq_step [OF h1 env_call_host [OF e] host_eq_refl])
  show ?thesis
  proof (cases "ms < cached_max v1a")
    case True
    let ?va0 = "\<lparr>fv_n = 0, fv_base_buf = None, fv_accum_buf = Some [],
                  fv_accum_size = None, fv_base_file = None, fv_accum_file = None,
                  fv_outfile = outfile\<rparr>"
    from assms(2) nonempty ga eq True obtain oka v2a err va v5a where
      ea: "env_call v1a = (oka, v2a)" and
      la: "dump_delta_chain_to_file_loop (entries deltas) (nentries deltas) ms pfa path ?va0 v2a
            = (err, va, v5a)" and
      d: "dump_delta_chain_to_file_done err va v5a = (None, f', wa')"
      by (auto simp: dump_delta_chain_to_file_def split: prod.splits sum.splits if_splits)
    from dump_delta_chain_to_file_done_None(1) [OF d] la
    have la': "dump_delta_chain_to_file_loop (entries deltas) (nentries deltas) ms pfa path
                 ?va0 v2a = (None, va, v5a)" by simp
    have h3: "host_eq v2 v2a"
      by (rule host_eq_step [OF h2 host_eq_refl env_call_host [OF ea]])
    have m0: "mem_mode ?v0 ?va0" by (simp add: mem_mode_def)
    from mem_mode_loops_agree [OF l la' h3 assms(4) m0]
    have m: "mem_mode v va" and o: "fv_outfile va = outfile" by simp_all
    from m have ab: "fv_accum_buf va = Some (mv_accum_buf v)"
      and sz: "fv_accum_size va = mv_accum_size v" by (simp_all add: mem_mode_def)
    from dump_delta_chain_to_file_done_None(3) [OF d ab] o assms(5,6) sz res
    show ?thesis by auto
  next
    case False
    from assms(2) nonempty ga eq False obtain bf0 v2a af0 v3a err va v5a where
      t1: "got_opentemp v1a = (Some bf0, v2a)" and
      t2: "got_opentemp v2a = (Some af0, v3a)" and
      la: "dump_delta_chain_to_file_loop (entries deltas) (nentries deltas) ms pfa path
             \<lparr>fv_n = 0, fv_base_buf = None, fv_accum_buf = None, fv_accum_size = None,
              fv_base_file = Some bf0, fv_accum_file = Some af0, fv_outfile = outfile\<rparr> v3a
            = (err, va, v5a)" and
      d: "dump_delta_chain_to_file_done err va v5a = (None, f', wa')"
      by (auto simp: dump_delta_chain_to_file_def split: prod.splits sum.splits option.splits)
    from dump_delta_chain_to_file_done_None(1) [OF d] la have en: "err = None" by simp
    note o1 = got_opentemp_Some [OF t1] and o2 = got_opentemp_Some [OF t2]
    have h3: "host_eq v2 v2a" by (rule host_eq_step [OF h2 host_eq_refl o1(3)])
    have h4: "host_eq v2 v3a" by (rule host_eq_step [OF h3 host_eq_refl o2(3)])
    from file_mode_loops_start
      [OF l [unfolded es ne] la [unfolded es ne en] h4 assms(4) o1(1,2) o2(2) assms(5,6) r refl]
    have fm: "file_mode (Suc (length rest)) [] v va" .
    then have ab: "fv_accum_buf va = None"
      and ob: "\<exists>n. mv_accum_size v = Some n
                \<and> fbytes (fv_outfile va) = take n (mv_accum_buf v)"
      by (simp_all add: file_mode_def)
    from dump_delta_chain_to_file_done_None(2) [OF d ab] ob res show ?thesis by auto
  qed
qed

text \<open>The queue that \<^verbatim>\<open>resolve_delta_chain\<close> returns has as many new entries as it has
  counted, and at least two when the object is a delta.\<close>

lemma resolve_delta_chain_well_formed:
  "resolve_delta_chain fuel deltas packfile path off tslen ty sz w = Some (Inr deltas', w') \<Longrightarrow>
     nentries deltas' + length (entries deltas) = nentries deltas + length (entries deltas')
     \<and> length (entries deltas) < length (entries deltas')
     \<and> (\<not> is_plain_type ty \<longrightarrow> length (entries deltas) + 2 \<le> length (entries deltas'))"
proof (induction fuel arbitrary: deltas packfile path off tslen ty sz w deltas' w')
  case 0
  then show ?case by simp
next
  case (Suc fuel)
  show ?case
  proof (cases "is_plain_type ty")
    case True
    with Suc.prems
    have "add_delta deltas path off tslen ty sz 0 w = (Inr deltas', w')" by simp
    from add_delta_Inr [OF this] True show ?thesis by simp
  next
    case False
    note plain = False
    have "\<exists>deltas1 f3 bpath boff btslen bty bsz w5 doff w1 w2 w6.
        add_delta deltas path off tslen ty sz doff w1 = (Inr deltas1, w2)
        \<and> resolve_delta_chain fuel deltas1 f3 bpath boff btslen bty bsz w5 = Some (Inr deltas', w6)"
    proof (cases "ty = GOT_OBJ_TYPE_OFFSET_DELTA")
      case True
      with plain Suc.prems
      have "resolve_offset_delta (resolve_delta_chain fuel) deltas packfile path off tslen ty sz w
              = Some (Inr deltas', w')" by simp
      then show ?thesis
        unfolding resolve_offset_delta_def
        by (auto split: sum.splits prod.splits option.splits; blast)
    next
      case False
      with plain Suc.prems
      have "resolve_ref_delta (resolve_delta_chain fuel) deltas packfile path off tslen ty sz w
              = Some (Inr deltas', w')" by (simp split: if_splits)
      then show ?thesis
        unfolding resolve_ref_delta_def
        by (auto split: sum.splits prod.splits option.splits offset_result.splits
                 dest!: resolve_ref_delta_done_Inr; blast)
    qed
    then obtain deltas1 f3 bpath boff btslen bty bsz w5 doff w1 w2 w6 where
      ad: "add_delta deltas path off tslen ty sz doff w1 = (Inr deltas1, w2)" and
      rec: "resolve_delta_chain fuel deltas1 f3 bpath boff btslen bty bsz w5 = Some (Inr deltas', w6)"
      by blast
    from Suc.IH [OF rec] add_delta_Inr [OF ad] show ?thesis by simp
  qed
qed

text \<open>
  Extract a packed object to memory and to a file, each time from the same state of the
  repository.  When both calls return without error, the file holds the \<^verbatim>\<open>*len\<close> bytes of
  the buffer, byte for byte: for an object that is not deltified, for a chain applied in
  memory by both functions, and for a chain that \<^verbatim>\<open>got_packfile_extract_object\<close> applies
  through its two temporary files.  The chain of a deltified object is taken as
  \<^verbatim>\<open>resolve_delta_chain\<close> builds it: the counter is the length of the queue, and a base is
  followed by at least one delta.
\<close>

lemma extract_object_same_state:
  assumes "got_packfile_extract_object_to_mem buf0 len0 obj w = (None, buf, len, w1)"
    and "got_packfile_extract_object f0 obj w = (None, f, obj', w2)"
    and "o_flags obj AND GOT_OBJ_FLAG_DELTIFIED \<noteq> 0 \<longrightarrow>
           nentries (o_deltas obj) = length (entries (o_deltas obj))
           \<and> 2 \<le> length (entries (o_deltas obj))"
  shows "\<exists>b fl. buf = Some b \<and> f = Some fl \<and> fbytes fl = take len b"
proof -
  from assms(1) have packed: "o_flags obj AND GOT_OBJ_FLAG_PACKED \<noteq> 0"
    by (auto simp: got_packfile_extract_object_to_mem_def)
  from assms(1) packed obtain pf v1 where
    fo: "fopen (o_path_packfile obj) w = (Some pf, v1)"
    by (auto simp: got_packfile_extract_object_to_mem_def split: prod.splits option.splits)
  from assms(2) packed obtain tf u1 where
    ot: "got_opentemp w = (Some tf, u1)"
    by (auto simp: got_packfile_extract_object_def split: prod.splits option.splits)
  from assms(2) packed ot obtain pfa u2 where
    foa: "fopen (o_path_packfile obj) u1 = (Some pfa, u2)"
    by (auto simp: got_packfile_extract_object_def split: prod.splits option.splits)
  note t = got_opentemp_Some [OF ot]
  note p = fopen_Some [OF fo] and pa = fopen_Some [OF foa]
  from p(1) pa(1) lookup_path_host [OF t(3)] have bytes: "fbytes pf = fbytes pfa" by simp
  have h0: "host_eq w u2" using t(3) pa(2) by (simp add: host_eq_def)
  have h: "host_eq v1 u2" by (rule host_eq_step [OF h0 p(2) host_eq_refl])
  show ?thesis
  proof (cases "o_flags obj AND GOT_OBJ_FLAG_DELTIFIED = 0")
    case True
    from assms(1) packed fo True obtain pf1 v2 b v4 where
      s: "fseeko pf (o_pack_offset obj) v1 = (Some pf1, v2)" and
      i: "got_inflate_to_mem pf1 v2 = (Inr b, v4)" and
      res: "buf = Some b" "len = length b"
      by (auto simp: got_packfile_extract_object_to_mem_def
               split: prod.splits option.splits sum.splits)
    from assms(2) packed ot foa True obtain pf1a u3 l fl u5 where
      sa: "fseeko pfa (o_pack_offset obj) u2 = (Some pf1a, u3)" and
      ia: "got_inflate_to_file pf1a tf u3 = (Inr (l, fl), u5)" and
      f: "f = Some fl"
      by (auto simp: got_packfile_extract_object_def Let_def
               split: prod.splits option.splits sum.splits)
    note fs = fseeko_Some [OF s] and fsa = fseeko_Some [OF sa]
    note gi = got_inflate_to_mem_Inr [OF i] and gia = got_inflate_to_file_Inr [OF ia]
    have "host_eq v2 u3"
      by (rule host_eq_step [OF h frame_eq_host [OF fs(2)] frame_eq_host [OF fsa(2)]])
    then have "inflate v2 = inflate u3" by (simp add: host_eq_def)
    with gi(1) gia(1) fs(1) fsa(1) bytes t(1,2) have "fbytes fl = b" by auto
    with res f show ?thesis by simp
  next
    case False
    from assms(1) packed fo False obtain v4 where
      m: "dump_delta_chain_to_mem (o_deltas obj) pf (o_path_packfile obj) v1
            = (None, buf, len, v4)"
      by (auto simp: got_packfile_extract_object_to_mem_def split: prod.splits)
    from assms(2) packed ot foa False obtain fl u5 where
      d: "dump_delta_chain_to_file (o_deltas obj) tf pfa (o_path_packfile obj) u2
            = (None, fl, u5)" and
      f: "f = Some fl"
      by (auto simp: got_packfile_extract_object_def Let_def split: prod.splits)
    from assms(3) False have wf: "nentries (o_deltas obj) = length (entries (o_deltas obj))"
      "2 \<le> length (entries (o_deltas obj))" by simp_all
    from dump_delta_chain_agree [OF m d h bytes t(1,2) wf] f show ?thesis by simp
  qed
qed

lemma text_pack_resolves:
  "map_option fst (resolve_delta_chain 3 \<lparr>nentries = 0, entries = []\<rparr>
      \<lparr>fd = 3, fbytes = text_pack, fpos = 28\<rparr> ''objects/pack/text.pack'' 27 1
      GOT_OBJ_TYPE_OFFSET_DELTA 5 text_host)
   = Some (Inr text_chain)"
  by code_simp

lemma text_obj_to_mem:
  "(case got_packfile_extract_object_to_mem None 0 text_obj text_host_files of
      (e, b, l, w) \<Rightarrow> (e, b, l)) = (None, Some [0x62, 0x63], 2)"
  by code_simp

lemma text_obj_to_file:
  "(case got_packfile_extract_object None text_obj text_host_files of
      (e, fl, ob, w) \<Rightarrow> (e, fl \<noteq> None)) = (None, True)"
  by code_simp

lemma text_obj_same_state:
  "\<exists>b len w1 fl obj' w2.
     got_packfile_extract_object_to_mem None 0 text_obj text_host_files = (None, Some b, len, w1)
     \<and> got_packfile_extract_object None text_obj text_host_files = (None, Some fl, obj', w2)
     \<and> nentries (o_deltas text_obj) = length (entries (o_deltas text_obj))
     \<and> 2 \<le> length (entries (o_deltas text_obj))
     \<and> fbytes fl = take len b \<and> take len b = [0x62, 0x63]"
proof -
  from text_obj_to_mem obtain w1 where
    m: "got_packfile_extract_object_to_mem None 0 text_obj text_host_files
          = (None, Some [0x62, 0x63], 2, w1)"
    by (auto split: prod.splits)
  from text_obj_to_file obtain fl obj' w2 where
    f: "got_packfile_extract_object None text_obj text_host_files = (None, Some fl, obj', w2)"
    by (auto split: prod.splits)
  have wf: "nentries (o_deltas text_obj) = length (entries (o_deltas text_obj))
      \<and> 2 \<le> length (entries (o_deltas text_obj))"
    by (simp add: text_obj_def text_chain_def)
  then have wf': "o_flags text_obj AND GOT_OBJ_FLAG_DELTIFIED \<noteq> 0 \<longrightarrow>
      nentries (o_deltas text_obj) = length (entries (o_deltas text_obj))
      \<and> 2 \<le> length (entries (o_deltas text_obj))" by simp
  from extract_object_same_state [OF m f wf']
  have "fbytes fl = take 2 [0x62, 0x63]" by simp
  with m f wf show ?thesis by force
qed

text \<open>The delta cache between two calls.  In a repository of five packs, on its own the
  object of \<open>text_pack\<close> is \<open>bc\<close> in memory and in the file.\<close>

lemma other_obj_resolves:
  "map_option fst (resolve_delta_chain 2 \<lparr>nentries = 0, entries = []\<rparr>
      \<lparr>fd = 3, fbytes = other_pack, fpos = 18\<rparr> ''objects/pack/q.pack'' 17 1
      GOT_OBJ_TYPE_OFFSET_DELTA 8 five_packs)
   = Some (Inr (o_deltas (other_obj ''objects/pack/q.pack'')))"
  by code_simp

lemma other_obj_extracts:
  "(case got_packfile_extract_object_to_mem None 0 (other_obj ''objects/pack/q.pack'') five_packs
    of (err, buf, len, w) \<Rightarrow> (err, buf, len))
   = (None, Some [0x78, 0x64, 0x65, 0x79, 0x7a], 5)"
  by code_simp

lemma text_obj_alone:
  "(case got_packfile_extract_object_to_mem None 0 text_obj five_packs of
      (err, buf, len, w) \<Rightarrow>
        (err, buf, len,
         case got_packfile_extract_object None text_obj w of
           (err', f, obj', w') \<Rightarrow> (err', map_option fbytes f)))
   = (None, Some [0x62, 0x63], 2, None, Some [0x62, 0x63])"
  by code_simp

text \<open>
  C4.  The claim is what the two functions are written for, and from one and the same
  state of the repository they agree.  The code breaks it between two calls, in
  \<^verbatim>\<open>cache_delta\<close>: when all slots of the delta cache are taken, the last slot is cleared and
  \<^verbatim>\<open>memmove\<close> moves the others one place up, but slot 0 is not cleared: it gets the path
  of the new pack and keeps the deltas of the pack that was there.  \<^verbatim>\<open>get_cached_delta\<close>
  then hands out, for the new pack, the delta that the old pack has at the same offset.
  In \<open>four_extracted\<close> an object has been extracted from each of four packs.  The object
  \<open>text_obj\<close> of the fifth pack is then extracted to memory, which gives \<open>bc\<close> and fills
  slot 0, and right after to a file, which gives \<open>de\<close>: both calls return without error,
  and the bytes differ.
\<close>

theorem extract_object_stale_delta:
  "(case got_packfile_extract_object_to_mem None 0 text_obj four_extracted of
      (err, buf, len, w) \<Rightarrow>
        (err, buf, len,
         case got_packfile_extract_object None text_obj w of
           (err', f, obj', w') \<Rightarrow> (err', map_option fbytes f)))
   = (None, Some [0x62, 0x63], 2, None, Some [0x64, 0x65])"
  by code_simp

end
